theory Spec2Isabelle
  imports Main "HOL-Library.Char_ord" "HOL-Library.List_Lexorder"
begin

section \<open>The streaming-chat client: line decoder, frame parser, reducer, notifications\<close>

text \<open>
  A shallow embedding of the streaming pipeline of \<^verbatim>\<open>services/api.ts\<close>
  (\<^verbatim>\<open>ApiService.sendStreamMessage\<close>), of the chat hook \<^verbatim>\<open>useChat\<close>
  (\<^verbatim>\<open>sendStreamMessage\<close> and its three callbacks), of the polling loop of
  \<^verbatim>\<open>NotificationService.startPolling\<close> and of the notification buffer of
  \<^verbatim>\<open>useNotifications\<close>. JavaScript strings are modelled as \<^typ>\<open>string\<close>,
  \<^verbatim>\<open>number\<close> message ids as \<^typ>\<open>int\<close>, an optional or nullable field as an
  \<^typ>\<open>'a option\<close>. What a callback does to the state of its caller is a function on
  that state; the transport, the clock and \<^verbatim>\<open>JSON.parse\<close> are inputs of the model.
  Callbacks and listeners are taken not to throw.
\<close>

subsection \<open>Line-buffered chunk decoder (api.ts, lines 145-157)\<close>

text \<open>
  \<^verbatim>\<open>buffer.split('\n')\<close>: the segments between line feeds. The result is never empty:
  the text after the last line feed (possibly empty) is its last element. (A character
  that is not a line feed joins the first segment of the rest; the rest always has one,
  so the first branch of the \<open>case\<close> is never taken.)
\<close>

fun split_nl :: "string \<Rightarrow> string list" where
  "split_nl [] = [[]]"
| "split_nl (c # cs) =
     (if c = CHR 0x0A then [] # split_nl cs
      else (case split_nl cs of [] \<Rightarrow> [[c]] | l # ls \<Rightarrow> (c # l) # ls))"

text \<open>
  One pass of the read loop over a decoded chunk \<open>v\<close>, the text that the platform's
  streaming decoder returns for the bytes read
  (\<^verbatim>\<open>decoder.decode(value, { stream: true })\<close>; the decoding itself is not modelled):
  \<^verbatim>\<open>buffer += v; lines = buffer.split('\n'); buffer = lines.pop() || ''\<close>.
  The result is the list of complete lines and the new carry-over buffer.
\<close>

definition feed :: "string \<Rightarrow> string \<Rightarrow> string list \<times> string" where
  "feed buffer v =
     (let lines = split_nl (buffer @ v)
      in (butlast lines, (if last lines \<noteq> [] then last lines else [])))"

text \<open>The decoder run over a sequence of chunks: the lines of every feed, in order.\<close>

fun feed_all :: "string \<Rightarrow> string list \<Rightarrow> string list \<times> string" where
  "feed_all buffer [] = ([], buffer)"
| "feed_all buffer (v # vs) =
     (let (lines, buffer') = feed buffer v;
          (more, buffer'') = feed_all buffer' vs
      in (lines @ more, buffer''))"

text \<open>\<^verbatim>\<open>Array.prototype.join('\n')\<close>, the inverse of the split.\<close>

fun join_nl :: "string list \<Rightarrow> string" where
  "join_nl [] = []"
| "join_nl [l] = l"
| "join_nl (l # ls) = l @ CHR 0x0A # join_nl ls"

subsection \<open>Notification events and the consumer's buffer (useNotifications.ts, lines 60-71)\<close>

text \<open>
  \<^verbatim>\<open>NotificationEvent\<close> of notificationService.ts; the opaque \<^verbatim>\<open>data\<close> is kept as text.
\<close>

datatype NotificationType =
  MESSAGE_RECEIVED | CONVERSATION_UPDATED | USER_JOINED | USER_LEFT | SYSTEM_NOTIFICATION

record NotificationEvent =
  event_id :: string
  event_type :: NotificationType
  data :: string
  user_id :: "string option"
  event_conversation_id :: "string option"
  timestamp :: string

text \<open>\<^verbatim>\<open>xs.slice(-n)\<close>: the last \<open>n\<close> elements, all of them when there are fewer.\<close>

definition slice_last :: "nat \<Rightarrow> 'a list \<Rightarrow> 'a list" where
  "slice_last n xs = drop (length xs - n) xs"

text \<open>
  The update of the buffer in \<^verbatim>\<open>handleNotificationEvent\<close>:
  \<^verbatim>\<open>prev.some(n => n.event_id === event.event_id) ? prev : [...prev, event].slice(-100)\<close>.
  (The handler also sets the flag \<^verbatim>\<open>isConnected\<close>, which is not part of the buffer.)
\<close>

definition handleNotificationEvent ::
  "NotificationEvent list \<Rightarrow> NotificationEvent \<Rightarrow> NotificationEvent list" where
  "handleNotificationEvent prev event =
     (let exists = list_ex (\<lambda>n. event_id n = event_id event) prev
      in if exists then prev else slice_last 100 (prev @ [event]))"

text \<open>The buffer after a sequence of dispatched events, from the initial empty buffer.\<close>

definition dispatch_all :: "NotificationEvent list \<Rightarrow> NotificationEvent list" where
  "dispatch_all events = foldl handleNotificationEvent [] events"

text \<open>Sample events: one per event id, and events numbered by the length of their id.\<close>

definition ev :: "string \<Rightarrow> NotificationEvent" where
  "ev i = \<lparr>event_id = i, event_type = MESSAGE_RECEIVED, data = [], user_id = None,
            event_conversation_id = None, timestamp = []\<rparr>"

definition numbered :: "nat \<Rightarrow> NotificationEvent" where
  "numbered n = ev (replicate n CHR ''x'')"

subsection \<open>Polling (notificationService.ts, lines 121-140)\<close>

text \<open>
  The service's watermark \<^verbatim>\<open>lastEventId\<close> (\<^verbatim>\<open>null\<close> is \<open>None\<close>) and, as a log, the
  events handed to \<^verbatim>\<open>triggerListeners\<close>, in order.
\<close>

record poll_state =
  lastEventId :: "string option"
  dispatched :: "NotificationEvent list"

text \<open>What \<^verbatim>\<open>fetchRecentNotifications\<close> gives: it throws, or it returns a batch.\<close>

datatype fetch_outcome = FetchRejected | Fetched "NotificationEvent list"

text \<open>
  The test of the loop body,
  \<^verbatim>\<open>!this.lastEventId || event.event_id > this.lastEventId\<close>:
  \<^verbatim>\<open>null\<close> and the empty string are falsy; \<open>>\<close> on strings is the lexicographic order
  of the code units.
\<close>

definition is_new_event :: "string option \<Rightarrow> NotificationEvent \<Rightarrow> bool" where
  "is_new_event lastId event =
     (case lastId of None \<Rightarrow> True | Some l \<Rightarrow> l = [] \<or> l < event_id event)"

text \<open>
  One run of \<^verbatim>\<open>poll\<close>. A failed fetch is caught and logged, nothing changes. Otherwise
  every event of the batch that passes the test is dispatched (the watermark does not
  move inside the loop), then, for a non-empty batch, the watermark becomes
  \<^verbatim>\<open>response.events[response.events.length - 1].event_id\<close>.
\<close>

definition poll :: "fetch_outcome \<Rightarrow> poll_state \<Rightarrow> poll_state" where
  "poll r s =
     (case r of
        FetchRejected \<Rightarrow> s
      | Fetched events \<Rightarrow>
          (let s1 = s\<lparr>dispatched := dispatched s @ filter (is_new_event (lastEventId s)) events\<rparr>
           in if length events > 0
              then s1\<lparr>lastEventId := Some (event_id (events ! (length events - 1)))\<rparr>
              else s1))"

text \<open>The events a run of \<^verbatim>\<open>poll\<close> dispatched: those the log gained.\<close>

definition newly_dispatched :: "poll_state \<Rightarrow> poll_state \<Rightarrow> NotificationEvent list" where
  "newly_dispatched s s' = drop (length (dispatched s)) (dispatched s')"

subsection \<open>Stream chunks and the frame parser (types of the client; api.ts, lines 159-173)\<close>

text \<open>
  \<^verbatim>\<open>StreamChunk\<close>, the payload of a frame. An optional field that is missing (or
  \<^verbatim>\<open>null\<close>) is \<open>None\<close>; a missing \<^verbatim>\<open>finished\<close> reads as \<^verbatim>\<open>undefined\<close>, which the
  loop's test \<^verbatim>\<open>if (data.finished)\<close> takes as false.
\<close>

record StreamChunk =
  chunk_content :: "string option"
  full_content :: "string option"
  finished :: bool
  chunk_error :: "string option"
  chunk_conversation_id :: "string option"
  user_message_id :: "int option"
  assistant_message_id :: "int option"

text \<open>The payload \<^verbatim>\<open>{}\<close>, from which the examples build theirs.\<close>

definition empty_chunk :: StreamChunk where
  "empty_chunk = \<lparr>chunk_content = None, full_content = None, finished = False,
     chunk_error = None, chunk_conversation_id = None, user_message_id = None,
     assistant_message_id = None\<rparr>"

text \<open>
  One line of the body: \<^verbatim>\<open>line.startsWith('data: ')\<close>, then
  \<^verbatim>\<open>JSON.parse(line.slice(6))\<close> inside \<^verbatim>\<open>try\<close>. The platform's \<^verbatim>\<open>JSON.parse\<close>, read at
  the type \<^verbatim>\<open>StreamChunk\<close>, is a parameter: \<open>None\<close> where it throws (the
  \<^verbatim>\<open>catch\<close> logs and goes on to the next line).
\<close>

definition parse_frame :: "(string \<Rightarrow> StreamChunk option) \<Rightarrow> string \<Rightarrow> StreamChunk option" where
  "parse_frame JSON_parse line =
     (if take 6 line = ''data: '' then JSON_parse (drop 6 line) else None)"

subsection \<open>The streaming request (api.ts, lines 119-178)\<close>

text \<open>
  What the transport does is the input of the model. \<^verbatim>\<open>fetch\<close> rejects or resolves
  with a response; the response has the flag \<^verbatim>\<open>ok\<close>, a status and possibly a body
  (the three arguments of \<open>Response\<close>, in this order); the
  body is the finite sequence of what \<^verbatim>\<open>reader.read()\<close> gives, each either a chunk (its
  text as the streaming \<^verbatim>\<open>TextDecoder\<close> decodes it) or a rejection, and after the
  last element \<^verbatim>\<open>done\<close>.
\<close>

datatype read_result = Value string | ReadRejected

datatype fetch_result =
  Rejected
| Response bool nat "read_result list option"

text \<open>The errors handed to \<^verbatim>\<open>onError\<close>: the two thrown by the function itself, and a rejection.\<close>

datatype stream_error = HttpError nat | NoReader | NetworkError

text \<open>
  The \<^verbatim>\<open>for\<close> loop over the complete lines of one read. The callbacks transform the
  caller's state. The flag of the result says that the function has returned
  (\<^verbatim>\<open>onComplete(); return\<close>).
\<close>

fun process_lines ::
  "(string \<Rightarrow> StreamChunk option) \<Rightarrow> (StreamChunk \<Rightarrow> 's \<Rightarrow> 's) \<Rightarrow> ('s \<Rightarrow> 's) \<Rightarrow>
   string list \<Rightarrow> 's \<Rightarrow> bool \<times> 's" where
  "process_lines JSON_parse onChunk onComplete [] s = (False, s)"
| "process_lines JSON_parse onChunk onComplete (line # lines) s =
     (case parse_frame JSON_parse line of
        None \<Rightarrow> process_lines JSON_parse onChunk onComplete lines s
      | Some chunk \<Rightarrow>
          (let s' = onChunk chunk s
           in if finished chunk then (True, onComplete s')
              else process_lines JSON_parse onChunk onComplete lines s'))"

text \<open>
  The \<^verbatim>\<open>while (true)\<close> loop: \<^verbatim>\<open>done\<close> breaks out of it (and the function ends
  without a callback), a rejected read is caught by the outer \<^verbatim>\<open>catch\<close>, a chunk is
  fed to the line buffer and its lines are processed.
\<close>

fun read_loop ::
  "(string \<Rightarrow> StreamChunk option) \<Rightarrow> (StreamChunk \<Rightarrow> 's \<Rightarrow> 's) \<Rightarrow> (stream_error \<Rightarrow> 's \<Rightarrow> 's) \<Rightarrow>
   ('s \<Rightarrow> 's) \<Rightarrow> string \<Rightarrow> read_result list \<Rightarrow> 's \<Rightarrow> 's" where
  "read_loop JSON_parse onChunk onError onComplete buffer [] s = s"
| "read_loop JSON_parse onChunk onError onComplete buffer (ReadRejected # reads) s =
     onError NetworkError s"
| "read_loop JSON_parse onChunk onError onComplete buffer (Value v # reads) s =
     (let (lines, buffer') = feed buffer v;
          (returned, s') = process_lines JSON_parse onChunk onComplete lines s
      in if returned then s'
         else read_loop JSON_parse onChunk onError onComplete buffer' reads s')"

text \<open>\<^verbatim>\<open>ApiService.sendStreamMessage\<close>: every \<^verbatim>\<open>throw\<close> and rejection ends in \<^verbatim>\<open>onError\<close>.\<close>

definition api_sendStreamMessage ::
  "(string \<Rightarrow> StreamChunk option) \<Rightarrow> (StreamChunk \<Rightarrow> 's \<Rightarrow> 's) \<Rightarrow> (stream_error \<Rightarrow> 's \<Rightarrow> 's) \<Rightarrow>
   ('s \<Rightarrow> 's) \<Rightarrow> fetch_result \<Rightarrow> 's \<Rightarrow> 's" where
  "api_sendStreamMessage JSON_parse onChunk onError onComplete r s =
     (case r of
        Rejected \<Rightarrow> onError NetworkError s
      | Response ok status body \<Rightarrow>
          if \<not> ok then onError (HttpError status) s
          else (case body of
                  None \<Rightarrow> onError NoReader s
                | Some reads \<Rightarrow> read_loop JSON_parse onChunk onError onComplete [] reads s))"

text \<open>
  The callbacks of one call, in the order they are made: the function run with
  callbacks that only record themselves.
\<close>

datatype callback = OnChunk StreamChunk | OnError stream_error | OnComplete

definition callbacks_of :: "(string \<Rightarrow> StreamChunk option) \<Rightarrow> fetch_result \<Rightarrow> callback list" where
  "callbacks_of JSON_parse r =
     api_sendStreamMessage JSON_parse (\<lambda>chunk log. log @ [OnChunk chunk])
       (\<lambda>err log. log @ [OnError err]) (\<lambda>log. log @ [OnComplete]) r []"

text \<open>Handing a recorded callback to the caller's three functions.\<close>

fun deliver ::
  "(StreamChunk \<Rightarrow> 's \<Rightarrow> 's) \<Rightarrow> (stream_error \<Rightarrow> 's \<Rightarrow> 's) \<Rightarrow> ('s \<Rightarrow> 's) \<Rightarrow> 's \<Rightarrow> callback \<Rightarrow> 's" where
  "deliver onChunk onError onComplete s (OnChunk chunk) = onChunk chunk s"
| "deliver onChunk onError onComplete s (OnError err) = onError err s"
| "deliver onChunk onError onComplete s OnComplete = onComplete s"

subsection \<open>Vocabulary for the statements about a stream\<close>

text \<open>The payloads of the lines that are frames, in order.\<close>

definition frames :: "(string \<Rightarrow> StreamChunk option) \<Rightarrow> string list \<Rightarrow> StreamChunk list" where
  "frames JSON_parse lines = List.map_filter (parse_frame JSON_parse) lines"

text \<open>
  The callbacks a sequence of payloads leads to: one \<open>OnChunk\<close> each up to and including
  the first finished one, which \<open>OnComplete\<close> follows.
\<close>

fun chunk_events :: "StreamChunk list \<Rightarrow> callback list" where
  "chunk_events [] = []"
| "chunk_events (c # cs) = OnChunk c # (if finished c then [OnComplete] else chunk_events cs)"

text \<open>The chunks read before the first rejected read, and whether a read is rejected.\<close>

fun values_read :: "read_result list \<Rightarrow> string list" where
  "values_read [] = []"
| "values_read (ReadRejected # reads) = []"
| "values_read (Value v # reads) = v # values_read reads"

definition read_rejected :: "read_result list \<Rightarrow> bool" where
  "read_rejected reads = (ReadRejected \<in> set reads)"

text \<open>The complete lines of a body: the segments of its text that a line feed ends.\<close>

definition complete_lines :: "read_result list \<Rightarrow> string list" where
  "complete_lines reads = butlast (split_nl (concat (values_read reads)))"

text \<open>The payloads a body delivers: the frames among its complete lines.\<close>

definition delivered :: "(string \<Rightarrow> StreamChunk option) \<Rightarrow> read_result list \<Rightarrow> StreamChunk list" where
  "delivered JSON_parse reads = frames JSON_parse (complete_lines reads)"

subsection \<open>The chat hook: state (useChat, types of the client)\<close>

datatype MessageRole = USER | ASSISTANT | SYSTEM

record ChatMessage =
  msg_id :: int
  role :: MessageRole
  content :: string
  conversation_id :: "string option"
  created_at :: string

text \<open>The one notice of the streaming path, \<^verbatim>\<open>toast.error\<close> with the fixed send-failure text.\<close>

datatype toast = SendFailed

text \<open>
  The state of the hook. \<^verbatim>\<open>loadConversations()\<close> is a request of its own; the model
  counts its calls. \<^verbatim>\<open>null\<close> is \<open>None\<close>.
\<close>

record chat_state =
  messages :: "ChatMessage list"
  currentConversation :: "string option"
  isLoading :: bool
  streamingMessageRef :: "int option"
  toasts :: "toast list"
  loadConversationsCalls :: nat

text \<open>The local variables of one \<^verbatim>\<open>sendStreamMessage\<close> that its callbacks assign.\<close>

record stream_locals =
  fullContent :: string
  finalConversationId :: "string option"
  finalUserMessageId :: "int option"
  finalAssistantMessageId :: "int option"

text \<open>
  The tests \<^verbatim>\<open>if (x)\<close> of the callbacks: a missing value, the empty string and the
  number \<open>0\<close> are falsy.
\<close>

definition truthy_string :: "string option \<Rightarrow> bool" where
  "truthy_string x = (case x of None \<Rightarrow> False | Some s \<Rightarrow> s \<noteq> [])"

definition truthy_number :: "int option \<Rightarrow> bool" where
  "truthy_number x = (case x of None \<Rightarrow> False | Some n \<Rightarrow> n \<noteq> 0)"

text \<open>\<^verbatim>\<open>currentConversation || undefined\<close>.\<close>

definition or_undefined :: "string option \<Rightarrow> string option" where
  "or_undefined x = (if truthy_string x then x else None)"

text \<open>
  \<^verbatim>\<open>message.trim()\<close>, on the white space of ASCII (tab, line feed, vertical tab, form
  feed, carriage return, space).
\<close>

definition is_space :: "char \<Rightarrow> bool" where
  "is_space c = (c = CHR '' '' \<or> c = CHR 0x09 \<or> c = CHR 0x0A \<or> c = CHR 0x0B \<or> c = CHR 0x0C \<or>
     c = CHR 0x0D)"

definition trim :: "string \<Rightarrow> string" where
  "trim s = rev (dropWhile is_space (rev (dropWhile is_space s)))"

text \<open>
  What the clock gives during one send: \<^verbatim>\<open>Date.now()\<close> and
  \<^verbatim>\<open>new Date().toISOString()\<close> for the user message, then both again for the
  assistant placeholder.
\<close>

record clock =
  now_user :: int
  iso_user :: string
  now_assistant :: int
  iso_assistant :: string

subsection \<open>The chat hook: the three callbacks (useChat, sendStreamMessage)\<close>

text \<open>
  \<^verbatim>\<open>onChunk\<close>: a truthy content is appended to \<^verbatim>\<open>fullContent\<close>, which becomes the
  content of every message whose id is \<^verbatim>\<open>tempAssistantId\<close>; each truthy metadata field
  is captured.
\<close>

definition onChunk ::
  "int \<Rightarrow> StreamChunk \<Rightarrow> chat_state \<times> stream_locals \<Rightarrow> chat_state \<times> stream_locals" where
  "onChunk tempAssistantId chunk p =
     (let (st, loc) = p;
          (st, loc) =
            (if truthy_string (chunk_content chunk)
             then (let fc = fullContent loc @ the (chunk_content chunk)
                   in (st\<lparr>messages :=
                          map (\<lambda>msg. if msg_id msg = tempAssistantId then msg\<lparr>content := fc\<rparr> else msg)
                            (messages st)\<rparr>,
                       loc\<lparr>fullContent := fc\<rparr>))
             else (st, loc));
          loc = (if truthy_string (chunk_conversation_id chunk)
                 then loc\<lparr>finalConversationId := chunk_conversation_id chunk\<rparr> else loc);
          loc = (if truthy_number (user_message_id chunk)
                 then loc\<lparr>finalUserMessageId := user_message_id chunk\<rparr> else loc);
          loc = (if truthy_number (assistant_message_id chunk)
                 then loc\<lparr>finalAssistantMessageId := assistant_message_id chunk\<rparr> else loc)
      in (st, loc))"

text \<open>
  \<^verbatim>\<open>onError\<close>: the notice, then the messages with one of the two placeholder ids are
  filtered out.
\<close>

definition onError ::
  "int \<Rightarrow> int \<Rightarrow> stream_error \<Rightarrow> chat_state \<times> stream_locals \<Rightarrow> chat_state \<times> stream_locals" where
  "onError userMessageId tempAssistantId err p =
     (let (st, loc) = p
      in (st\<lparr>toasts := toasts st @ [SendFailed],
             messages :=
               filter (\<lambda>msg. msg_id msg \<noteq> tempAssistantId \<and> msg_id msg \<noteq> userMessageId)
                 (messages st)\<rparr>,
          loc))"

text \<open>
  \<^verbatim>\<open>onComplete\<close>: a message with the user placeholder id gets the final user id and
  the final conversation id when the final user id is truthy; otherwise a message with
  the assistant placeholder id gets the final assistant id and the final conversation id
  when that id is truthy; every other message stays. Then, when the send started without
  a conversation and the final conversation id is truthy, the conversation becomes
  current and the list of conversations is reloaded.
\<close>

definition onComplete ::
  "string option \<Rightarrow> int \<Rightarrow> int \<Rightarrow> chat_state \<times> stream_locals \<Rightarrow> chat_state \<times> stream_locals" where
  "onComplete currentConv userMessageId tempAssistantId p =
     (let (st, loc) = p;
          st = st\<lparr>messages :=
                 map (\<lambda>msg.
                        if msg_id msg = userMessageId \<and> truthy_number (finalUserMessageId loc)
                        then msg\<lparr>msg_id := the (finalUserMessageId loc),
                                 conversation_id := finalConversationId loc\<rparr>
                        else if msg_id msg = tempAssistantId \<and>
                                truthy_number (finalAssistantMessageId loc)
                        then msg\<lparr>msg_id := the (finalAssistantMessageId loc),
                                 conversation_id := finalConversationId loc\<rparr>
                        else msg)
                   (messages st)\<rparr>;
          st = (if \<not> truthy_string currentConv \<and> truthy_string (finalConversationId loc)
                then st\<lparr>currentConversation := finalConversationId loc,
                        loadConversationsCalls := loadConversationsCalls st + 1\<rparr>
                else st)
      in (st\<lparr>streamingMessageRef := None\<rparr>, loc))"

subsection \<open>The chat hook: sending (useChat, sendStreamMessage)\<close>

text \<open>The two optimistic messages of a send.\<close>

definition userMessage :: "clock \<Rightarrow> string option \<Rightarrow> string \<Rightarrow> ChatMessage" where
  "userMessage clk currentConv message =
     \<lparr>msg_id = now_user clk, role = USER, content = trim message,
      conversation_id = or_undefined currentConv, created_at = iso_user clk\<rparr>"

definition tempAssistantId :: "clock \<Rightarrow> int" where
  "tempAssistantId clk = now_assistant clk + 1"

definition assistantMessage :: "clock \<Rightarrow> string option \<Rightarrow> ChatMessage" where
  "assistantMessage clk currentConv =
     \<lparr>msg_id = tempAssistantId clk, role = ASSISTANT, content = [],
      conversation_id = or_undefined currentConv, created_at = iso_assistant clk\<rparr>"

text \<open>
  The callbacks' variables as declared: \<^verbatim>\<open>fullContent = ''\<close>,
  \<^verbatim>\<open>finalConversationId = currentConversation\<close>, and the two final ids undefined.
\<close>

definition start_locals :: "string option \<Rightarrow> stream_locals" where
  "start_locals currentConv =
     \<lparr>fullContent = [], finalConversationId = currentConv,
      finalUserMessageId = None, finalAssistantMessageId = None\<rparr>"

text \<open>
  \<^verbatim>\<open>sendStreamMessage\<close> of the hook: a blank message returns at once; otherwise the
  two messages are appended, the request runs with the three callbacks, and
  \<^verbatim>\<open>finally\<close> clears \<^verbatim>\<open>isLoading\<close>. \<open>currentConv\<close> is the conversation the hook
  held when the send started. The request's callbacks do not throw, so the outer
  \<^verbatim>\<open>catch\<close> of the hook is never entered.
\<close>

definition sendStreamMessage ::
  "(string \<Rightarrow> StreamChunk option) \<Rightarrow> clock \<Rightarrow> fetch_result \<Rightarrow> string \<Rightarrow> chat_state \<Rightarrow> chat_state" where
  "sendStreamMessage JSON_parse clk r message st =
     (if trim message = [] then st
      else
        (let currentConv = currentConversation st;
             st = st\<lparr>isLoading := True\<rparr>;
             st = st\<lparr>messages := messages st @ [userMessage clk currentConv message]\<rparr>;
             st = st\<lparr>messages := messages st @ [assistantMessage clk currentConv]\<rparr>;
             st = st\<lparr>streamingMessageRef := Some (tempAssistantId clk)\<rparr>;
             loc = start_locals currentConv;
             (st, loc) =
               api_sendStreamMessage JSON_parse
                 (onChunk (tempAssistantId clk))
                 (onError (now_user clk) (tempAssistantId clk))
                 (onComplete currentConv (now_user clk) (tempAssistantId clk))
                 r (st, loc)
         in st\<lparr>isLoading := False\<rparr>))"

subsection \<open>Vocabulary for the statements about a send\<close>

text \<open>The chunks handed to \<open>onChunk\<close>: those delivered, up to and including the first finished one.\<close>

fun upto_finished :: "StreamChunk list \<Rightarrow> StreamChunk list" where
  "upto_finished [] = []"
| "upto_finished (c # cs) = c # (if finished c then [] else upto_finished cs)"

text \<open>The state after \<open>onChunk\<close> was called with each chunk of a list, in order.\<close>

definition after_chunks ::
  "int \<Rightarrow> StreamChunk list \<Rightarrow> chat_state \<times> stream_locals \<Rightarrow> chat_state \<times> stream_locals" where
  "after_chunks aid chunks p = foldl (\<lambda>q chunk. onChunk aid chunk q) p chunks"

text \<open>The content fields of a list of chunks, concatenated in order (a missing one adds nothing).\<close>

definition contents :: "StreamChunk list \<Rightarrow> string" where
  "contents chunks = concat (map (\<lambda>c. case chunk_content c of None \<Rightarrow> [] | Some t \<Rightarrow> t) chunks)"

text \<open>The latest truthy value of a list, or the initial value when there is none.\<close>

definition latest :: "('a \<Rightarrow> bool) \<Rightarrow> 'a \<Rightarrow> 'a list \<Rightarrow> 'a" where
  "latest truthy init xs = last (init # filter truthy xs)"

text \<open>The states used in the examples: an empty hook, and a clock.\<close>

definition initial_state :: chat_state where
  "initial_state = \<lparr>messages = [], currentConversation = None, isLoading = False,
     streamingMessageRef = None, toasts = [], loadConversationsCalls = 0\<rparr>"

definition sample_clock :: clock where
  "sample_clock = \<lparr>now_user = 1700000000000, iso_user = ''2023-11-14T22:13:20.000Z'',
     now_assistant = 1700000000000, iso_assistant = ''2023-11-14T22:13:20.000Z''\<rparr>"

subsection \<open>A decoder for the payloads of the examples\<close>

text \<open>
  The statements about the pipeline hold for every \<open>JSON_parse\<close>. To run the examples,
  \<open>parse_chunk\<close> decodes the JSON texts that the endpoint's frames are made of: one flat
  object whose values are string literals without escape sequences, integers,
  \<^verbatim>\<open>true\<close>, \<^verbatim>\<open>false\<close> or \<^verbatim>\<open>null\<close>, with white space between the tokens, read at the
  type \<^verbatim>\<open>StreamChunk\<close>. On such a text it gives what \<^verbatim>\<open>JSON.parse\<close> gives, and on a text
  that is not JSON it gives \<open>None\<close>, as \<^verbatim>\<open>JSON.parse\<close> throws. It also gives \<open>None\<close> on
  the JSON it does not cover (a value that is not an object, nested values, escape
  sequences, fractions and exponents, a field of another type than \<^verbatim>\<open>StreamChunk\<close>
  declares); no example uses such a text.
\<close>

datatype json_value = JString string | JNumber int | JBool bool | JNull

definition is_json_ws :: "char \<Rightarrow> bool" where
  "is_json_ws c = (c = CHR '' '' \<or> c = CHR 0x09 \<or> c = CHR 0x0A \<or> c = CHR 0x0D)"

definition skip_ws :: "string \<Rightarrow> string" where
  "skip_ws s = dropWhile is_json_ws s"

text \<open>A string literal after its opening quote: its characters, and the text after the closing quote.\<close>

fun string_body :: "string \<Rightarrow> (string \<times> string) option" where
  "string_body [] = None"
| "string_body (c # cs) =
     (if c = CHR 0x22 then Some ([], cs)
      else if c = CHR 0x5C \<or> (of_char c :: nat) < 32 then None
      else (case string_body cs of None \<Rightarrow> None | Some (s, rest) \<Rightarrow> Some (c # s, rest)))"

definition is_digit :: "char \<Rightarrow> bool" where
  "is_digit c = (CHR ''0'' \<le> c \<and> c \<le> CHR ''9'')"

fun digits_value :: "nat \<Rightarrow> string \<Rightarrow> nat" where
  "digits_value acc [] = acc"
| "digits_value acc (d # ds) = digits_value (10 * acc + (of_char d - of_char CHR ''0'')) ds"

text \<open>An integer literal: an optional minus sign, then \<open>0\<close> or digits that do not start with \<open>0\<close>.\<close>

definition integer_literal :: "string \<Rightarrow> (int \<times> string) option" where
  "integer_literal s =
     (let negative = (s \<noteq> [] \<and> hd s = CHR ''-'');
          t = (if negative then tl s else s);
          ds = takeWhile is_digit t
      in if ds = [] \<or> (1 < length ds \<and> hd ds = CHR ''0'') then None
         else Some ((if negative then - int (digits_value 0 ds) else int (digits_value 0 ds)),
                    dropWhile is_digit t))"

definition json_scalar :: "string \<Rightarrow> (json_value \<times> string) option" where
  "json_scalar s =
     (if take 4 s = ''true'' then Some (JBool True, drop 4 s)
      else if take 5 s = ''false'' then Some (JBool False, drop 5 s)
      else if take 4 s = ''null'' then Some (JNull, drop 4 s)
      else if s \<noteq> [] \<and> hd s = CHR 0x22 then
        (case string_body (tl s) of None \<Rightarrow> None | Some (v, rest) \<Rightarrow> Some (JString v, rest))
      else (case integer_literal s of None \<Rightarrow> None | Some (n, rest) \<Rightarrow> Some (JNumber n, rest)))"

text \<open>
  The members of an object after its opening brace or a comma, up to the closing brace,
  after which only white space may follow. The first argument bounds the number of
  members by the length of the text.
\<close>

fun json_members :: "nat \<Rightarrow> string \<Rightarrow> (string \<times> json_value) list option" where
  "json_members 0 s = None"
| "json_members (Suc n) s =
     (let s1 = skip_ws s in
      if s1 = [] \<or> hd s1 \<noteq> CHR 0x22 then None
      else (case string_body (tl s1) of
              None \<Rightarrow> None
            | Some (k, s2) \<Rightarrow>
                (let s3 = skip_ws s2 in
                 if s3 = [] \<or> hd s3 \<noteq> CHR '':'' then None
                 else (case json_scalar (skip_ws (tl s3)) of
                         None \<Rightarrow> None
                       | Some (v, s4) \<Rightarrow>
                           (let s5 = skip_ws s4 in
                            if s5 = [] then None
                            else if hd s5 = CHR '','' then
                              (case json_members n (tl s5) of
                                 None \<Rightarrow> None
                               | Some kvs \<Rightarrow> Some ((k, v) # kvs))
                            else if hd s5 = CHR ''}'' \<and> skip_ws (tl s5) = [] then Some [(k, v)]
                            else None)))))"

definition json_object :: "string \<Rightarrow> (string \<times> json_value) list option" where
  "json_object s =
     (let s1 = skip_ws s in
      if s1 = [] \<or> hd s1 \<noteq> CHR ''{'' then None
      else (let s2 = skip_ws (tl s1) in
            if s2 \<noteq> [] \<and> hd s2 = CHR ''}'' then (if skip_ws (tl s2) = [] then Some [] else None)
            else json_members (length s2) s2))"

text \<open>
  Reading a field of the parsed object at its type: a missing or \<^verbatim>\<open>null\<close> field is
  \<open>None\<close>. Of a repeated key the last value counts, as in \<^verbatim>\<open>JSON.parse\<close>.
\<close>

definition string_field :: "(string \<times> json_value) list \<Rightarrow> string \<Rightarrow> string option" where
  "string_field kvs k = (case map_of (rev kvs) k of Some (JString v) \<Rightarrow> Some v | _ \<Rightarrow> None)"

definition number_field :: "(string \<times> json_value) list \<Rightarrow> string \<Rightarrow> int option" where
  "number_field kvs k = (case map_of (rev kvs) k of Some (JNumber n) \<Rightarrow> Some n | _ \<Rightarrow> None)"

definition bool_field :: "(string \<times> json_value) list \<Rightarrow> string \<Rightarrow> bool" where
  "bool_field kvs k = (case map_of (rev kvs) k of Some (JBool b) \<Rightarrow> b | _ \<Rightarrow> False)"

text \<open>Whether each field of \<^verbatim>\<open>StreamChunk\<close> that the object has is of the declared type.\<close>

definition field_typed :: "(string \<times> json_value) list \<Rightarrow> string \<Rightarrow> (json_value \<Rightarrow> bool) \<Rightarrow> bool" where
  "field_typed kvs k is_type =
     (case map_of (rev kvs) k of None \<Rightarrow> True | Some v \<Rightarrow> v = JNull \<or> is_type v)"

definition is_JString :: "json_value \<Rightarrow> bool" where
  "is_JString v = (case v of JString _ \<Rightarrow> True | _ \<Rightarrow> False)"

definition is_JNumber :: "json_value \<Rightarrow> bool" where
  "is_JNumber v = (case v of JNumber _ \<Rightarrow> True | _ \<Rightarrow> False)"

definition is_JBool :: "json_value \<Rightarrow> bool" where
  "is_JBool v = (case v of JBool _ \<Rightarrow> True | _ \<Rightarrow> False)"

definition parse_chunk :: "string \<Rightarrow> StreamChunk option" where
  "parse_chunk s =
     (case json_object s of
        None \<Rightarrow> None
      | Some kvs \<Rightarrow>
          if field_typed kvs ''content'' is_JString \<and> field_typed kvs ''full_content'' is_JString \<and>
             field_typed kvs ''finished'' is_JBool \<and> field_typed kvs ''error'' is_JString \<and>
             field_typed kvs ''conversation_id'' is_JString \<and>
             field_typed kvs ''user_message_id'' is_JNumber \<and>
             field_typed kvs ''assistant_message_id'' is_JNumber
          then Some \<lparr>chunk_content = string_field kvs ''content'',
                      full_content = string_field kvs ''full_content'',
                      finished = bool_field kvs ''finished'',
                      chunk_error = string_field kvs ''error'',
                      chunk_conversation_id = string_field kvs ''conversation_id'',
                      user_message_id = number_field kvs ''user_message_id'',
                      assistant_message_id = number_field kvs ''assistant_message_id''\<rparr>
          else None)"

subsection \<open>Facts about splitting\<close>

lemma split_nl_nonempty: "split_nl s \<noteq> []"
  by (induction s) (auto split: list.splits)

lemma split_nl_append:
  "split_nl (a @ b) = butlast (split_nl a) @ split_nl (last (split_nl a) @ b)"
proof (induction a)
  case Nil
  show ?case by simp
next
  case (Cons c a)
  obtain l ls where sp: "split_nl a = l # ls"
    using split_nl_nonempty [of a] by (cases "split_nl a") auto
  show ?case
  proof (cases "ls = []")
    case True
    with Cons sp show ?thesis by (auto simp: split_nl_nonempty)
  next
    case False
    with Cons sp show ?thesis by (auto simp: split_nl_nonempty)
  qed
qed

lemma join_split_nl: "join_nl (split_nl s) = s"
proof (induction s)
  case Nil
  show ?case by simp
next
  case (Cons c s)
  obtain l ls where sp: "split_nl s = l # ls"
    using split_nl_nonempty [of s] by (cases "split_nl s") auto
  with Cons show ?case by (cases ls) auto
qed

lemma no_nl_split: "CHR 0x0A \<notin> set l \<Longrightarrow> split_nl l = [l]"
  by (induction l) auto

lemma split_nl_no_nl: "l \<in> set (split_nl s) \<Longrightarrow> CHR 0x0A \<notin> set l"
proof (induction s arbitrary: l)
  case Nil
  then show ?case by simp
next
  case (Cons c s)
  obtain k ks where sp: "split_nl s = k # ks"
    using split_nl_nonempty [of s] by (cases "split_nl s") auto
  from Cons.prems sp Cons.IH show ?case
    by (auto split: if_splits)
qed

lemma feed_eq: "feed buffer v = (butlast (split_nl (buffer @ v)), last (split_nl (buffer @ v)))"
  by (simp add: feed_def Let_def)

lemma feed_all_eq:
  "CHR 0x0A \<notin> set buffer \<Longrightarrow>
   feed_all buffer vs =
     (butlast (split_nl (buffer @ concat vs)), last (split_nl (buffer @ concat vs)))"
proof (induction vs arbitrary: buffer)
  case Nil
  then show ?case by (simp add: no_nl_split)
next
  case (Cons v vs)
  let ?b = "last (split_nl (buffer @ v))"
  have nb: "CHR 0x0A \<notin> set ?b"
    using split_nl_no_nl [of ?b "buffer @ v"] split_nl_nonempty [of "buffer @ v"] by simp
  have sp: "split_nl ((buffer @ v) @ concat vs) =
            butlast (split_nl (buffer @ v)) @ split_nl (?b @ concat vs)"
    by (rule split_nl_append)
  show ?case
    using Cons.IH [OF nb] sp
    by (simp add: feed_eq split_nl_nonempty butlast_append)
qed

subsection \<open>Claim C6\<close>

text \<open>
  C6. For every sequence of feeds, each feed appends the decoded chunk to the carry-over
  buffer, splits on the line feed, emits all segments but the last as complete lines and
  keeps the last (possibly empty) segment as the new buffer. Over the whole sequence the
  emitted lines are therefore the complete lines of the concatenated text, the buffer is
  its unfinished tail, and lines and buffer joined by line feeds give back the whole
  text: no carry-over is dropped, no line is split differently. Feeding \<open>ab\<close> and then
  \<open>c\<newline>def\<newline>\<close> gives the lines \<open>abc\<close>, \<open>def\<close>, in that order.
\<close>

theorem C6_line_buffering:
  "feed buffer v = (butlast (split_nl (buffer @ v)), last (split_nl (buffer @ v))) \<and>
   feed_all [] vs = (butlast (split_nl (concat vs)), last (split_nl (concat vs))) \<and>
   join_nl (fst (feed_all [] vs) @ [snd (feed_all [] vs)]) = concat vs \<and>
   feed_all [] [''ab'', ''c\<newline>def\<newline>''] = ([''abc'', ''def''], [])"
proof -
  have one: "feed buffer v = (butlast (split_nl (buffer @ v)), last (split_nl (buffer @ v)))"
    by (rule feed_eq)
  have all: "feed_all [] vs = (butlast (split_nl (concat vs)), last (split_nl (concat vs)))"
    using feed_all_eq [of "[]" vs] by simp
  have rejoin: "join_nl (fst (feed_all [] vs) @ [snd (feed_all [] vs)]) = concat vs"
    by (simp add: all split_nl_nonempty join_split_nl)
  have ex: "feed_all [] [''ab'', ''c\<newline>def\<newline>''] = ([''abc'', ''def''], [])"
    by (simp add: feed_def)
  from one all rejoin ex show ?thesis by blast
qed

subsection \<open>Facts about the notification buffer\<close>

lemma handle_dup:
  "event_id e \<in> event_id ` set prev \<Longrightarrow> handleNotificationEvent prev e = prev"
  by (auto simp: handleNotificationEvent_def list_ex_iff)

lemma handle_distinct:
  assumes "distinct (map event_id prev)"
  shows "distinct (map event_id (handleNotificationEvent prev e))"
proof (cases "list_ex (\<lambda>n. event_id n = event_id e) prev")
  case True
  with assms show ?thesis by (simp add: handleNotificationEvent_def)
next
  case False
  then have "event_id e \<notin> set (map event_id prev)"
    by (auto simp: list_ex_iff)
  with assms have "distinct (map event_id (prev @ [e]))" by simp
  then have "distinct (drop (length (prev @ [e]) - 100) (map event_id (prev @ [e])))"
    by (rule distinct_drop)
  then have "distinct (map event_id (slice_last 100 (prev @ [e])))"
    by (simp only: slice_last_def drop_map)
  with False show ?thesis by (simp add: handleNotificationEvent_def)
qed

lemma handle_length:
  "length prev \<le> 100 \<Longrightarrow> length (handleNotificationEvent prev e) \<le> 100"
  by (auto simp: handleNotificationEvent_def slice_last_def Let_def)

lemma foldl_handle_inv:
  "distinct (map event_id prev) \<Longrightarrow> length prev \<le> 100 \<Longrightarrow>
   distinct (map event_id (foldl handleNotificationEvent prev es)) \<and>
   length (foldl handleNotificationEvent prev es) \<le> 100"
  by (induction es arbitrary: prev) (simp_all add: handle_distinct handle_length)

lemma slice_last_snoc:
  "slice_last n (slice_last n xs @ [x]) = slice_last n (xs @ [x])"
proof (cases "length xs \<le> n")
  case True
  then show ?thesis by (simp add: slice_last_def)
next
  case False
  then have "Suc (length xs) - n = Suc (length xs - n)" by arith
  with False show ?thesis by (simp add: slice_last_def)
qed

lemma dispatch_distinct:
  "distinct (map event_id es) \<Longrightarrow> dispatch_all es = slice_last 100 es"
proof (induction es rule: rev_induct)
  case Nil
  show ?case by (simp add: dispatch_all_def slice_last_def)
next
  case (snoc e es)
  then have ih: "dispatch_all es = slice_last 100 es" by simp
  have fresh: "event_id e \<notin> event_id ` set es"
    using snoc.prems by simp
  have "\<forall>n \<in> set (slice_last 100 es). event_id n \<noteq> event_id e"
  proof
    fix n
    assume "n \<in> set (slice_last 100 es)"
    then have "n \<in> set es"
      unfolding slice_last_def by (rule in_set_dropD)
    then have "event_id n \<in> event_id ` set es" by (rule imageI)
    with fresh show "event_id n \<noteq> event_id e" by auto
  qed
  then have "\<not> list_ex (\<lambda>n. event_id n = event_id e) (slice_last 100 es)"
    by (simp add: list_ex_iff)
  then have "handleNotificationEvent (slice_last 100 es) e = slice_last 100 (slice_last 100 es @ [e])"
    by (simp add: handleNotificationEvent_def)
  then show ?case
    using ih by (simp add: dispatch_all_def slice_last_snoc)
qed

lemma numbered_inj: "event_id (numbered m) = event_id (numbered n) \<Longrightarrow> m = n"
proof -
  assume "event_id (numbered m) = event_id (numbered n)"
  then have "length (replicate m CHR ''x'') = length (replicate n CHR ''x'')"
    by (simp add: numbered_def ev_def)
  then show "m = n" by simp
qed

lemma numbered_distinct: "distinct (map event_id (map numbered [i..<j]))"
  by (auto simp: distinct_map inj_on_def dest: numbered_inj)

lemma dispatch_all_inv:
  "distinct (map event_id (dispatch_all es)) \<and> length (dispatch_all es) \<le> 100"
  unfolding dispatch_all_def by (rule foldl_handle_inv) simp_all

text \<open>
  C9. The notification buffer never holds two events with the same event id and never
  more than 100 entries: each dispatch keeps both properties, so they hold after every
  sequence of dispatches from the empty buffer. Events with pairwise distinct ids leave
  the last 100 in arrival order (105 of them leave exactly the last 100), and an event
  whose id is already in the buffer leaves the buffer as it is.
\<close>

theorem C9_notification_buffer:
  "(distinct (map event_id prev) \<longrightarrow>
      distinct (map event_id (handleNotificationEvent prev e))) \<and>
   (length prev \<le> 100 \<longrightarrow> length (handleNotificationEvent prev e) \<le> 100) \<and>
   distinct (map event_id (dispatch_all es)) \<and>
   length (dispatch_all es) \<le> 100 \<and>
   (distinct (map event_id es) \<longrightarrow> dispatch_all es = slice_last 100 es) \<and>
   (distinct (map event_id es) \<and> length es = 105 \<longrightarrow>
      dispatch_all es = drop 5 es \<and> length (dispatch_all es) = 100) \<and>
   (event_id e \<in> event_id ` set prev \<longrightarrow> handleNotificationEvent prev e = prev)"
proof -
  have many: "dispatch_all es = drop 5 es \<and> length (dispatch_all es) = 100"
    if "distinct (map event_id es)" "length es = 105"
    using dispatch_distinct [OF that(1)] that(2) by (simp add: slice_last_def)
  show ?thesis
    using handle_distinct [of prev e] handle_length [of prev e] dispatch_all_inv [of es]
      dispatch_distinct [of es] many handle_dup [of e prev]
    by blast
qed

theorem C9_notification_buffer_witness:
  "distinct (map event_id [ev ''a'', ev ''b'']) \<and>
   distinct (map event_id (handleNotificationEvent [ev ''a'', ev ''b''] (ev ''a''))) \<and>
   length [ev ''a'', ev ''b''] \<le> 100 \<and>
   length (handleNotificationEvent [ev ''a'', ev ''b''] (ev ''a'')) \<le> 100 \<and>
   distinct (map event_id (map numbered [0..<105])) \<and>
   length (map numbered [0..<105]) = 105 \<and>
   dispatch_all (map numbered [0..<105]) = drop 5 (map numbered [0..<105]) \<and>
   length (dispatch_all (map numbered [0..<105])) = 100 \<and>
   event_id (ev ''a'') \<in> event_id ` set [ev ''a'', ev ''b''] \<and>
   handleNotificationEvent [ev ''a'', ev ''b''] (ev ''a'') = [ev ''a'', ev ''b'']"
proof -
  have d2: "distinct (map event_id [ev ''a'', ev ''b''])"
    by (simp add: ev_def)
  have l2: "length [ev ''a'', ev ''b''] \<le> 100"
    by simp
  have m2: "event_id (ev ''a'') \<in> event_id ` set [ev ''a'', ev ''b'']"
    by simp
  have d105: "distinct (map event_id (map numbered [0..<105]))"
    by (rule numbered_distinct)
  have l105: "length (map numbered [0..<105]) = 105"
    by (simp del: upt_rec_numeral)
  show ?thesis
    using C9_notification_buffer [of "[ev ''a'', ev ''b'']" "ev ''a''" "map numbered [0..<105]"]
      d2 l2 m2 d105 l105
    by blast
qed

subsection \<open>Facts about polling\<close>

lemma sorted_last_Max:
  fixes xs :: "'a::linorder list"
  shows "sorted xs \<Longrightarrow> xs \<noteq> [] \<Longrightarrow> last xs = Max (set xs)"
proof (induction xs)
  case Nil
  then show ?case by simp
next
  case (Cons x xs)
  show ?case
  proof (cases "xs = []")
    case True
    then show ?thesis by simp
  next
    case False
    with Cons have ih: "last xs = Max (set xs)" by simp
    from Cons.prems have "\<forall>y\<in>set xs. x \<le> y" by simp
    with False have "x \<le> Max (set xs)"
      by (metis List.finite_set Max_ge_iff last_in_set set_empty)
    with False ih show ?thesis by (simp add: max_absorb2)
  qed
qed

lemma poll_dispatched:
  "newly_dispatched s (poll (Fetched events) s) = filter (is_new_event (lastEventId s)) events"
  by (simp add: newly_dispatched_def poll_def Let_def)

lemma poll_watermark:
  "events \<noteq> [] \<Longrightarrow> lastEventId (poll (Fetched events) s) = Some (event_id (last events))"
  by (simp add: poll_def Let_def last_conv_nth)

lemma poll_watermark_empty:
  "lastEventId (poll (Fetched []) s) = lastEventId s"
  by (simp add: poll_def)

lemma poll_watermark_sorted:
  assumes "events \<noteq> []" "sorted (map event_id events)"
  shows "lastEventId (poll (Fetched events) s) = Some (Max (set (map event_id events)))"
proof -
  have "last (map event_id events) = Max (set (map event_id events))"
    using assms by (intro sorted_last_Max) simp_all
  with assms(1) show ?thesis
    by (simp add: poll_watermark last_map)
qed

text \<open>
  C3 (as amended). A failed fetch changes nothing. For a fetched batch, the events
  dispatched are exactly the events of the batch, in batch order, whose id is strictly
  greater (string comparison) than the watermark held before the batch, or all of them
  when that watermark is unset or empty; and after a non-empty batch the watermark is
  the id of the last event of the batch, which is the greatest id of the batch when the
  batch comes in ascending order of ids. An empty batch leaves the watermark alone.
\<close>

theorem C3_polling_watermark:
  "poll FetchRejected s = s \<and>
   newly_dispatched s (poll (Fetched events) s) =
     filter (\<lambda>e. case lastEventId s of None \<Rightarrow> True | Some l \<Rightarrow> l = [] \<or> l < event_id e) events \<and>
   (\<forall>e \<in> set (newly_dispatched s (poll (Fetched events) s)).
      e \<in> set events \<and>
      (lastEventId s = None \<or> lastEventId s = Some [] \<or>
       (\<exists>l. lastEventId s = Some l \<and> l < event_id e))) \<and>
   (events \<noteq> [] \<longrightarrow>
      lastEventId (poll (Fetched events) s) = Some (event_id (last events))) \<and>
   (events \<noteq> [] \<and> sorted (map event_id events) \<longrightarrow>
      lastEventId (poll (Fetched events) s) = Some (Max (set (map event_id events)))) \<and>
   lastEventId (poll (Fetched []) s) = lastEventId s"
proof -
  have same: "is_new_event (lastEventId s) =
      (\<lambda>e. case lastEventId s of None \<Rightarrow> True | Some l \<Rightarrow> l = [] \<or> l < event_id e)"
    by (rule ext) (simp add: is_new_event_def)
  have c1: "poll FetchRejected s = s"
    by (simp add: poll_def)
  have c2: "newly_dispatched s (poll (Fetched events) s) =
     filter (\<lambda>e. case lastEventId s of None \<Rightarrow> True | Some l \<Rightarrow> l = [] \<or> l < event_id e) events"
    by (simp only: poll_dispatched same)
  have c3: "\<forall>e \<in> set (newly_dispatched s (poll (Fetched events) s)).
      e \<in> set events \<and>
      (lastEventId s = None \<or> lastEventId s = Some [] \<or>
       (\<exists>l. lastEventId s = Some l \<and> l < event_id e))"
    by (auto simp: poll_dispatched is_new_event_def split: option.splits)
  have c4: "events \<noteq> [] \<longrightarrow>
      lastEventId (poll (Fetched events) s) = Some (event_id (last events))"
    by (simp add: poll_watermark)
  have c5: "events \<noteq> [] \<and> sorted (map event_id events) \<longrightarrow>
      lastEventId (poll (Fetched events) s) = Some (Max (set (map event_id events)))"
    using poll_watermark_sorted [of events s] by blast
  have c6: "lastEventId (poll (Fetched []) s) = lastEventId s"
    by (rule poll_watermark_empty)
  show ?thesis
    by (intro conjI) (fact c1, fact c2, fact c3, fact c4, fact c5, fact c6)
qed

theorem C3_polling_watermark_witness:
  "newly_dispatched \<lparr>lastEventId = Some ''3'', dispatched = []\<rparr>
     (poll (Fetched [ev ''2'', ev ''4'', ev ''5'']) \<lparr>lastEventId = Some ''3'', dispatched = []\<rparr>)
     = [ev ''4'', ev ''5''] \<and>
   [ev ''2'', ev ''4'', ev ''5''] \<noteq> [] \<and>
   sorted (map event_id [ev ''2'', ev ''4'', ev ''5'']) \<and>
   lastEventId (poll (Fetched [ev ''2'', ev ''4'', ev ''5'']) \<lparr>lastEventId = Some ''3'', dispatched = []\<rparr>)
     = Some ''5'' \<and>
   Max (set (map event_id [ev ''2'', ev ''4'', ev ''5''])) = ''5''"
proof -
  let ?s = "\<lparr>lastEventId = Some ''3'', dispatched = []\<rparr>"
  let ?es = "[ev ''2'', ev ''4'', ev ''5'']"
  note all = C3_polling_watermark [of ?s ?es]
  have ne: "?es \<noteq> []" by simp
  have so: "sorted (map event_id ?es)"
    by (simp add: ev_def)
  have mx: "Max (set (map event_id ?es)) = ''5''"
    by (simp add: ev_def)
  have "newly_dispatched ?s (poll (Fetched ?es) ?s) =
      filter (\<lambda>e. case lastEventId ?s of None \<Rightarrow> True | Some l \<Rightarrow> l = [] \<or> l < event_id e) ?es"
    by (rule all [THEN conjunct2, THEN conjunct1])
  also have "\<dots> = [ev ''4'', ev ''5'']"
    by (simp add: ev_def)
  finally have nd: "newly_dispatched ?s (poll (Fetched ?es) ?s) = [ev ''4'', ev ''5'']" .
  have "?es \<noteq> [] \<and> sorted (map event_id ?es) \<longrightarrow>
      lastEventId (poll (Fetched ?es) ?s) = Some (Max (set (map event_id ?es)))"
    by (rule all [THEN conjunct2, THEN conjunct2, THEN conjunct2, THEN conjunct2, THEN conjunct1])
  with ne so have "lastEventId (poll (Fetched ?es) ?s) = Some (Max (set (map event_id ?es)))"
    by blast
  then have wm: "lastEventId (poll (Fetched ?es) ?s) = Some ''5''"
    by (simp only: mx)
  show ?thesis
    by (intro conjI) (fact nd, fact ne, fact so, fact wm, fact mx)
qed

text \<open>
  C3 as stated fails on a batch that is not in ascending order: after the batch with
  ids \<open>2\<close>, \<open>1\<close> the watermark is \<open>1\<close>, not the greatest id \<open>2\<close>.
\<close>

theorem C3_last_is_not_max_counterexample:
  "lastEventId (poll (Fetched [ev ''2'', ev ''1'']) \<lparr>lastEventId = None, dispatched = []\<rparr>)
     = Some ''1'' \<and>
   Max (set (map event_id [ev ''2'', ev ''1''])) = ''2'' \<and>
   lastEventId (poll (Fetched [ev ''2'', ev ''1'']) \<lparr>lastEventId = None, dispatched = []\<rparr>)
     \<noteq> Some (Max (set (map event_id [ev ''2'', ev ''1''])))"
  by (simp add: poll_def ev_def)

subsection \<open>The callbacks of a streaming call\<close>

lemma frames_Nil: "frames jp [] = []"
  by (simp add: frames_def)

lemma frames_Cons:
  "frames jp (l # ls) = (case parse_frame jp l of None \<Rightarrow> frames jp ls | Some c \<Rightarrow> c # frames jp ls)"
  by (simp add: frames_def split: option.splits)

lemma frames_append: "frames jp (ls @ ms) = frames jp ls @ frames jp ms"
  by (induction ls) (simp_all add: frames_Nil frames_Cons split: option.splits)

lemma chunk_events_append:
  "chunk_events (cs @ ds) =
     (if list_ex finished cs then chunk_events cs else chunk_events cs @ chunk_events ds)"
  by (induction cs) auto

lemma process_lines_events:
  "process_lines jp onC onD lines s =
     (list_ex finished (frames jp lines),
      foldl (deliver onC onE onD) s (chunk_events (frames jp lines)))"
  by (induction lines arbitrary: s) (auto simp: frames_Nil frames_Cons Let_def split: option.splits)

lemma read_rejected_simps:
  "read_rejected [] = False"
  "read_rejected (ReadRejected # reads) = True"
  "read_rejected (Value v # reads) = read_rejected reads"
  by (simp_all add: read_rejected_def)

lemma read_loop_events:
  "read_loop jp onC onE onD buffer reads s =
     foldl (deliver onC onE onD) s
       (chunk_events (frames jp (fst (feed_all buffer (values_read reads)))) @
        (if \<not> list_ex finished (frames jp (fst (feed_all buffer (values_read reads)))) \<and>
            read_rejected reads
         then [OnError NetworkError] else []))"
proof (induction reads arbitrary: buffer s)
  case Nil
  show ?case by (simp add: frames_Nil read_rejected_simps)
next
  case (Cons r reads)
  show ?case
  proof (cases r)
    case ReadRejected
    then show ?thesis by (simp add: frames_Nil read_rejected_simps)
  next
    case (Value v)
    obtain lines buffer' where f: "feed buffer v = (lines, buffer')"
      by (cases "feed buffer v")
    obtain more buffer'' where m: "feed_all buffer' (values_read reads) = (more, buffer'')"
      by (cases "feed_all buffer' (values_read reads)")
    have ih: "read_loop jp onC onE onD buffer' reads s' =
        foldl (deliver onC onE onD) s'
          (chunk_events (frames jp more) @
           (if \<not> list_ex finished (frames jp more) \<and> read_rejected reads
            then [OnError NetworkError] else []))" for s'
      using Cons.IH [of buffer' s'] m by simp
    show ?thesis
      using Value f m ih
      by (simp add: process_lines_events [where onE = onE] frames_append chunk_events_append
          read_rejected_simps)
  qed
qed

lemma fst_feed_all_empty: "fst (feed_all [] vs) = butlast (split_nl (concat vs))"
  using feed_all_eq [of "[]" vs] by simp

lemma body_events:
  "read_loop jp onC onE onD [] reads s =
     foldl (deliver onC onE onD) s
       (chunk_events (delivered jp reads) @
        (if \<not> list_ex finished (delivered jp reads) \<and> read_rejected reads
         then [OnError NetworkError] else []))"
  by (simp only: read_loop_events [of jp onC onE onD "[]" reads s] fst_feed_all_empty
      delivered_def complete_lines_def)

lemma foldl_record:
  "foldl (deliver (\<lambda>chunk log. log @ [OnChunk chunk]) (\<lambda>err log. log @ [OnError err])
            (\<lambda>log. log @ [OnComplete])) t es = t @ es"
proof (induction es arbitrary: t)
  case Nil
  show ?case by simp
next
  case (Cons e es)
  then show ?case by (cases e) simp_all
qed

lemma callbacks_of_body:
  "callbacks_of jp (Response True st (Some reads)) =
     chunk_events (delivered jp reads) @
       (if \<not> list_ex finished (delivered jp reads) \<and> read_rejected reads
        then [OnError NetworkError] else [])"
  by (simp add: callbacks_of_def api_sendStreamMessage_def body_events foldl_record)

lemma callbacks_of_failures:
  "callbacks_of jp Rejected = [OnError NetworkError]"
  "callbacks_of jp (Response False st b) = [OnError (HttpError st)]"
  "callbacks_of jp (Response True st None) = [OnError NoReader]"
  by (simp_all add: callbacks_of_def api_sendStreamMessage_def)

lemma api_by_callbacks:
  "api_sendStreamMessage jp onC onE onD r s = foldl (deliver onC onE onD) s (callbacks_of jp r)"
proof (cases r)
  case Rejected
  then show ?thesis by (simp add: callbacks_of_failures) (simp add: api_sendStreamMessage_def)
next
  case (Response k st b)
  show ?thesis
  proof (cases "k \<and> b \<noteq> None")
    case True
    then obtain reads where "b = Some reads" "k" by auto
    with Response show ?thesis
      by (simp only: callbacks_of_body) (simp add: api_sendStreamMessage_def body_events)
  next
    case False
    with Response show ?thesis
      by (cases k; cases b) (simp_all add: callbacks_of_failures, simp_all add: api_sendStreamMessage_def)
  qed
qed

subsection \<open>The order of the callbacks\<close>

lemma chunk_events_unfinished:
  "\<not> list_ex finished cs \<Longrightarrow> chunk_events cs = map OnChunk cs"
  by (induction cs) auto

lemma chunk_events_finished:
  "list_ex finished cs \<Longrightarrow> chunk_events cs = map OnChunk (upto_finished cs) @ [OnComplete]"
  by (induction cs) auto

lemma upto_finished_unfinished: "\<not> list_ex finished cs \<Longrightarrow> upto_finished cs = cs"
  by (induction cs) auto

lemma chunk_events_no_error: "OnError e \<notin> set (chunk_events cs)"
  by (induction cs) auto

lemma chunk_events_complete_iff: "OnComplete \<in> set (chunk_events cs) \<longleftrightarrow> list_ex finished cs"
  by (induction cs) auto

lemma chunk_events_after_finished:
  "chunk_events cs = pre @ OnChunk c # post \<Longrightarrow> finished c \<Longrightarrow> post = [OnComplete]"
  by (induction cs arbitrary: pre) (auto simp: Cons_eq_append_conv split: if_splits)

lemma chunk_events_complete_last:
  "chunk_events cs = pre @ OnComplete # post \<Longrightarrow>
   post = [] \<and> (\<exists>pre' c. pre = pre' @ [OnChunk c] \<and> finished c) \<and>
   (\<forall>c. OnChunk c \<in> set (butlast pre) \<longrightarrow> \<not> finished c)"
proof (induction cs arbitrary: pre)
  case Nil
  then show ?case by simp
next
  case (Cons c cs)
  show ?case
  proof (cases "finished c")
    case True
    with Cons.prems have "pre = [OnChunk c] \<and> post = []"
      by (auto simp: Cons_eq_append_conv)
    with True show ?thesis by auto
  next
    case False
    with Cons.prems obtain pre1 where p: "pre = OnChunk c # pre1" "chunk_events cs = pre1 @ OnComplete # post"
      by (auto simp: Cons_eq_append_conv)
    from Cons.IH [OF p(2)] obtain pre' c' where
      q: "post = []" "pre1 = pre' @ [OnChunk c']" "finished c'"
         "\<forall>c. OnChunk c \<in> set (butlast pre1) \<longrightarrow> \<not> finished c"
      by blast
    have "pre = (OnChunk c # pre') @ [OnChunk c']" using p q by simp
    moreover have "\<forall>d. OnChunk d \<in> set (butlast pre) \<longrightarrow> \<not> finished d"
      using p q False by auto
    ultimately show ?thesis using q by blast
  qed
qed

lemma snoc_eq_split:
  "xs @ [x] = pre @ y # post \<Longrightarrow> y \<notin> set xs \<Longrightarrow> post = [] \<and> pre = xs \<and> x = y"
proof (cases post rule: rev_cases)
  case Nil
  assume "xs @ [x] = pre @ y # post"
  with Nil show ?thesis by simp
next
  case (snoc post' z)
  assume "xs @ [x] = pre @ y # post" "y \<notin> set xs"
  with snoc have "xs = pre @ y # post'" by simp
  with \<open>y \<notin> set xs\<close> show ?thesis by simp
qed

text \<open>The callbacks of a call whose response is usable, in the two forms they take.\<close>

lemma callbacks_of_cases:
  obtains (quiet) "callbacks_of jp (Response True st (Some reads)) = chunk_events (delivered jp reads)"
      "list_ex finished (delivered jp reads) \<or> \<not> read_rejected reads"
  | (failed) "callbacks_of jp (Response True st (Some reads)) =
        map OnChunk (delivered jp reads) @ [OnError NetworkError]"
      "\<not> list_ex finished (delivered jp reads)" "read_rejected reads"
  by (cases "\<not> list_ex finished (delivered jp reads) \<and> read_rejected reads")
    (auto simp: callbacks_of_body chunk_events_unfinished)

lemma protocol_finished:
  "callbacks_of jp r = pre @ OnChunk c # post \<Longrightarrow> finished c \<Longrightarrow> post = [OnComplete]"
proof (cases r)
  case Rejected
  assume "callbacks_of jp r = pre @ OnChunk c # post"
  with Rejected show ?thesis by (simp add: callbacks_of_failures Cons_eq_append_conv)
next
  case (Response k st b)
  assume eq: "callbacks_of jp r = pre @ OnChunk c # post" and fin: "finished c"
  show ?thesis
  proof (cases "k \<and> b \<noteq> None")
    case False
    with Response eq show ?thesis
      by (cases k; cases b) (simp_all add: callbacks_of_failures Cons_eq_append_conv)
  next
    case True
    then obtain reads where r: "r = Response True st (Some reads)"
      using Response by auto
    show ?thesis
    proof (cases rule: callbacks_of_cases [where jp = jp and st = st and reads = reads])
      case quiet
      with eq r fin show ?thesis by (auto dest: chunk_events_after_finished)
    next
      case failed
      with eq r have "OnChunk c \<in> set (map OnChunk (delivered jp reads) @ [OnError NetworkError])"
        by simp
      then have "c \<in> set (delivered jp reads)" by auto
      with fin failed(2) show ?thesis by (auto simp: list_ex_iff)
    qed
  qed
qed

lemma protocol_complete:
  "callbacks_of jp r = pre @ OnComplete # post \<Longrightarrow>
   post = [] \<and> (\<exists>pre' c. pre = pre' @ [OnChunk c] \<and> finished c)"
proof (cases r)
  case Rejected
  assume "callbacks_of jp r = pre @ OnComplete # post"
  with Rejected show ?thesis by (simp add: callbacks_of_failures Cons_eq_append_conv)
next
  case (Response k st b)
  assume eq: "callbacks_of jp r = pre @ OnComplete # post"
  show ?thesis
  proof (cases "k \<and> b \<noteq> None")
    case False
    with Response eq show ?thesis
      by (cases k; cases b) (simp_all add: callbacks_of_failures Cons_eq_append_conv)
  next
    case True
    then obtain reads where r: "r = Response True st (Some reads)"
      using Response by auto
    show ?thesis
    proof (cases rule: callbacks_of_cases [where jp = jp and st = st and reads = reads])
      case quiet
      with eq r have "chunk_events (delivered jp reads) = pre @ OnComplete # post" by simp
      from chunk_events_complete_last [OF this] show ?thesis by blast
    next
      case failed
      with eq r have "OnComplete \<in> set (map OnChunk (delivered jp reads) @ [OnError NetworkError])"
        by simp
      then show ?thesis by auto
    qed
  qed
qed

lemma protocol_error:
  "callbacks_of jp r = pre @ OnError e # post \<Longrightarrow>
   post = [] \<and> OnComplete \<notin> set pre \<and> (\<forall>e'. OnError e' \<notin> set pre) \<and>
   (\<forall>c. OnChunk c \<in> set pre \<longrightarrow> \<not> finished c)"
proof (cases r)
  case Rejected
  assume "callbacks_of jp r = pre @ OnError e # post"
  with Rejected show ?thesis by (auto simp: callbacks_of_failures Cons_eq_append_conv)
next
  case (Response k st b)
  assume eq: "callbacks_of jp r = pre @ OnError e # post"
  show ?thesis
  proof (cases "k \<and> b \<noteq> None")
    case False
    with Response eq show ?thesis
      by (cases k; cases b) (auto simp: callbacks_of_failures Cons_eq_append_conv)
  next
    case True
    then obtain reads where r: "r = Response True st (Some reads)"
      using Response by auto
    show ?thesis
    proof (cases rule: callbacks_of_cases [where jp = jp and st = st and reads = reads])
      case quiet
      with eq r have "OnError e \<in> set (chunk_events (delivered jp reads))" by simp
      then show ?thesis by (simp add: chunk_events_no_error)
    next
      case failed
      with eq r have split: "map OnChunk (delivered jp reads) @ [OnError NetworkError] = pre @ OnError e # post"
        by simp
      have fresh: "OnError e \<notin> set (map OnChunk (delivered jp reads))" by auto
      from snoc_eq_split [OF split fresh]
      have "post = []" and pre: "pre = map OnChunk (delivered jp reads)" by simp_all
      have "\<forall>c. OnChunk c \<in> set pre \<longrightarrow> \<not> finished c"
        using failed(2) unfolding pre list_ex_iff by auto
      moreover have "OnComplete \<notin> set pre" "\<forall>e'. OnError e' \<notin> set pre"
        unfolding pre by auto
      ultimately show ?thesis using \<open>post = []\<close> by blast
    qed
  qed
qed

lemma protocol_error_iff:
  "(\<exists>e. OnError e \<in> set (callbacks_of jp r)) \<longleftrightarrow>
     r = Rejected \<or> (\<exists>st b. r = Response False st b) \<or> (\<exists>st. r = Response True st None) \<or>
     (\<exists>st reads. r = Response True st (Some reads) \<and> read_rejected reads \<and>
        \<not> list_ex finished (delivered jp reads))"
proof (cases r)
  case Rejected
  then show ?thesis by (simp add: callbacks_of_failures)
next
  case (Response k st b)
  show ?thesis
  proof (cases "k \<and> b \<noteq> None")
    case False
    with Response show ?thesis
      by (cases k; cases b) (simp_all add: callbacks_of_failures)
  next
    case True
    then obtain reads where r: "r = Response True st (Some reads)"
      using Response by auto
    show ?thesis
      by (cases rule: callbacks_of_cases [where jp = jp and st = st and reads = reads]) (auto simp: r chunk_events_no_error)
  qed
qed

subsection \<open>Frames, failed parses and the unfinished last line\<close>

lemma process_lines_skip:
  assumes "parse_frame jp line = None"
  shows "process_lines jp onC onD (before @ line # after) s =
         process_lines jp onC onD (before @ after) s"
proof -
  have "frames jp (before @ line # after) = frames jp (before @ after)"
    using assms by (simp add: frames_append frames_Cons)
  then show ?thesis
    by (simp only: process_lines_events [where onE = "\<lambda>e s. s"])
qed

lemma parse_frame_iff:
  "parse_frame jp line = Some c \<longleftrightarrow> (\<exists>rest. line = ''data: '' @ rest \<and> jp rest = Some c)"
proof
  assume p: "parse_frame jp line = Some c"
  then have "take 6 line = ''data: ''" "jp (drop 6 line) = Some c"
    by (auto simp: parse_frame_def split: if_splits)
  moreover have "line = take 6 line @ drop 6 line" by simp
  ultimately have "line = ''data: '' @ drop 6 line \<and> jp (drop 6 line) = Some c"
    by metis
  then show "\<exists>rest. line = ''data: '' @ rest \<and> jp rest = Some c" by blast
next
  assume "\<exists>rest. line = ''data: '' @ rest \<and> jp rest = Some c"
  then show "parse_frame jp line = Some c"
    by (auto simp: parse_frame_def)
qed

lemma no_error_without_rejection:
  "\<not> read_rejected reads \<Longrightarrow> OnError e \<notin> set (callbacks_of jp (Response True st (Some reads)))"
  by (simp add: callbacks_of_body chunk_events_no_error)

lemma values_read_snoc:
  "\<not> read_rejected reads \<Longrightarrow> values_read (reads @ [Value v]) = values_read reads @ [v]"
proof (induction reads)
  case Nil
  show ?case by simp
next
  case (Cons r reads)
  then show ?case by (cases r) (simp_all add: read_rejected_simps)
qed

lemma butlast_split_nl_tail:
  assumes "CHR 0x0A \<notin> set tail"
  shows "butlast (split_nl (a @ tail)) = butlast (split_nl a)"
proof -
  have "CHR 0x0A \<notin> set (last (split_nl a) @ tail)"
    using assms split_nl_no_nl [of "last (split_nl a)" a] split_nl_nonempty [of a] by simp
  then have "split_nl (last (split_nl a) @ tail) = [last (split_nl a) @ tail]"
    by (rule no_nl_split)
  then show ?thesis
    by (simp add: split_nl_append [of a tail] butlast_append)
qed

lemma complete_lines_tail:
  "\<not> read_rejected reads \<Longrightarrow> CHR 0x0A \<notin> set tail \<Longrightarrow>
   complete_lines (reads @ [Value tail]) = complete_lines reads"
  by (simp add: complete_lines_def values_read_snoc butlast_split_nl_tail)

lemma callbacks_tail:
  assumes "\<not> read_rejected reads" "CHR 0x0A \<notin> set tail"
  shows "callbacks_of jp (Response True st (Some (reads @ [Value tail]))) =
         callbacks_of jp (Response True st (Some reads))"
proof -
  have "\<not> read_rejected (reads @ [Value tail])"
    using assms(1) by (simp add: read_rejected_def)
  with assms show ?thesis
    by (simp add: callbacks_of_body delivered_def complete_lines_tail)
qed

subsection \<open>Claim C7: the frame parser\<close>

lemma frame_examples:
  \<open>parse_frame parse_chunk ''not a frame'' = None\<close>
  \<open>parse_frame parse_chunk ''data: {bad json'' = None\<close>
  \<open>parse_frame parse_chunk ''data: {"content":"hi","finished":false}'' =
     Some (empty_chunk\<lparr>chunk_content := Some ''hi''\<rparr>)\<close>
  \<open>parse_chunk ''{bad json'' = None\<close>
  by code_simp+

lemma stream_with_bad_frame:
  \<open>callbacks_of parse_chunk (Response True 200
      (Some [Value ''data: {bad json\<newline>data: {"content":"hi","finished":false}\<newline>''])) =
    [OnChunk (empty_chunk\<lparr>chunk_content := Some ''hi''\<rparr>)]\<close>
  by code_simp

lemma unterminated_frame:
  \<open>callbacks_of parse_chunk (Response True 200
      (Some [Value ''data: {"content":"hi","finished":false}''])) = []\<close>
  by code_simp

lemma terminated_frame:
  \<open>callbacks_of parse_chunk (Response True 200
      (Some [Value ''data: {"content":"hi","finished":false}\<newline>''])) =
    [OnChunk (empty_chunk\<lparr>chunk_content := Some ''hi''\<rparr>)]\<close>
  by code_simp

text \<open>
  C7. A line yields a payload exactly when it starts with \<open>data: \<close> and the parser
  accepts the rest; every other line (one without the prefix, an empty one, one whose
  rest does not parse) yields nothing. A line that yields nothing does not end the
  loop: the lines after it are processed as if it were not there, and without a
  rejected read no parse failure ever leads to \<open>onError\<close>. With the payload decoder of
  the examples: \<open>not a frame\<close> and \<open>data: {bad json\<close> yield nothing, the frame of
  the specification's section 8.2 yields the content \<open>hi\<close>, and a body with a malformed
  frame before a good one still delivers the good one.
\<close>

theorem C7_frame_parser:
  \<open>(parse_frame jp line = Some c) = (\<exists>rest. line = ''data: '' @ rest \<and> jp rest = Some c) \<and>
   (jp rest = None \<longrightarrow> parse_frame jp (''data: '' @ rest) = None) \<and>
   (take 6 line \<noteq> ''data: '' \<longrightarrow> parse_frame jp line = None) \<and>
   parse_frame jp [] = None \<and>
   (parse_frame jp line = None \<longrightarrow>
      process_lines jp onC onD (before @ line # after) s =
      process_lines jp onC onD (before @ after) s) \<and>
   (\<not> read_rejected reads \<longrightarrow>
      OnError e \<notin> set (callbacks_of jp (Response True st (Some reads)))) \<and>
   parse_frame parse_chunk ''not a frame'' = None \<and>
   parse_frame parse_chunk ''data: {bad json'' = None \<and>
   parse_frame parse_chunk ''data: {"content":"hi","finished":false}'' =
     Some (empty_chunk\<lparr>chunk_content := Some ''hi''\<rparr>) \<and>
   callbacks_of parse_chunk (Response True 200
      (Some [Value ''data: {bad json\<newline>data: {"content":"hi","finished":false}\<newline>''])) =
    [OnChunk (empty_chunk\<lparr>chunk_content := Some ''hi''\<rparr>)]\<close>
proof -
  have c2: "jp rest = None \<longrightarrow> parse_frame jp (''data: '' @ rest) = None"
    by (simp add: parse_frame_def)
  have c3: "take 6 line \<noteq> ''data: '' \<longrightarrow> parse_frame jp line = None"
    by (simp add: parse_frame_def)
  have c4: "parse_frame jp [] = None"
    by (simp add: parse_frame_def)
  have c5: "parse_frame jp line = None \<longrightarrow>
      process_lines jp onC onD (before @ line # after) s =
      process_lines jp onC onD (before @ after) s"
    using process_lines_skip [of jp line onC onD before after s] by blast
  have c6: "\<not> read_rejected reads \<longrightarrow>
      OnError e \<notin> set (callbacks_of jp (Response True st (Some reads)))"
    using no_error_without_rejection [of reads e jp st] by blast
  show ?thesis
    by (intro conjI) (fact parse_frame_iff, fact c2, fact c3, fact c4, fact c5, fact c6,
        fact frame_examples(1), fact frame_examples(2), fact frame_examples(3),
        fact stream_with_bad_frame)
qed

theorem C7_frame_parser_witness:
  \<open>parse_chunk ''{bad json'' = None \<and>
   parse_frame parse_chunk (''data: '' @ ''{bad json'') = None \<and>
   take 6 ''not a frame'' \<noteq> ''data: '' \<and>
   parse_frame parse_chunk ''not a frame'' = None \<and>
   process_lines parse_chunk (\<lambda>chunk log. log @ [OnChunk chunk]) (\<lambda>log. log @ [OnComplete])
     ([] @ ''data: {bad json'' # [''data: {"content":"hi","finished":false}'']) [] =
   process_lines parse_chunk (\<lambda>chunk log. log @ [OnChunk chunk]) (\<lambda>log. log @ [OnComplete])
     ([] @ [''data: {"content":"hi","finished":false}'']) [] \<and>
   \<not> read_rejected [Value ''data: {bad json\<newline>''] \<and>
   OnError NetworkError \<notin> set (callbacks_of parse_chunk (Response True 200
      (Some [Value ''data: {bad json\<newline>''])))\<close>
proof -
  note all = C7_frame_parser [where jp = parse_chunk and rest = "''{bad json''"
      and line = "''not a frame''"]
  have bad: \<open>parse_chunk ''{bad json'' = None\<close>
    by (rule frame_examples(4))
  have w1: \<open>parse_frame parse_chunk (''data: '' @ ''{bad json'') = None\<close>
    using all [THEN conjunct2, THEN conjunct1] bad by blast
  have pre: \<open>take 6 ''not a frame'' \<noteq> ''data: ''\<close>
    by simp
  have w2: \<open>parse_frame parse_chunk ''not a frame'' = None\<close>
    using all [THEN conjunct2, THEN conjunct2, THEN conjunct1] pre by blast
  have skip: \<open>parse_frame parse_chunk ''data: {bad json'' = None\<close>
    by (rule frame_examples(2))
  have w3: \<open>process_lines parse_chunk (\<lambda>chunk log. log @ [OnChunk chunk]) (\<lambda>log. log @ [OnComplete])
     ([] @ ''data: {bad json'' # [''data: {"content":"hi","finished":false}'']) [] =
   process_lines parse_chunk (\<lambda>chunk log. log @ [OnChunk chunk]) (\<lambda>log. log @ [OnComplete])
     ([] @ [''data: {"content":"hi","finished":false}'']) []\<close>
    using C7_frame_parser [where jp = parse_chunk and line = "''data: {bad json''"
        and before = "[]" and after = \<open>[''data: {"content":"hi","finished":false}'']\<close>
        and onC = "\<lambda>chunk log. log @ [OnChunk chunk]" and onD = "\<lambda>log. log @ [OnComplete]"
        and s = "[]",
        THEN conjunct2, THEN conjunct2, THEN conjunct2, THEN conjunct2, THEN conjunct1] skip
    by blast
  have nr: \<open>\<not> read_rejected [Value ''data: {bad json\<newline>'']\<close>
    by (simp add: read_rejected_def)
  have w4: \<open>OnError NetworkError \<notin> set (callbacks_of parse_chunk (Response True 200
      (Some [Value ''data: {bad json\<newline>''])))\<close>
    using C7_frame_parser [where jp = parse_chunk and reads = \<open>[Value ''data: {bad json\<newline>'']\<close>
        and e = NetworkError and st = 200,
        THEN conjunct2, THEN conjunct2, THEN conjunct2, THEN conjunct2, THEN conjunct2,
        THEN conjunct1] nr
    by blast
  show ?thesis
    by (intro conjI) (fact bad, fact w1, fact pre, fact w2, fact w3, fact nr, fact w4)
qed

subsection \<open>Claims C4 and C5: end of stream, order of callbacks\<close>

text \<open>
  C4 as stated fails: a body that ends after a frame without a line feed leads to no
  callback at all, although the line is a frame that parses.
\<close>

theorem C4_unterminated_line_counterexample:
  \<open>parse_frame parse_chunk ''data: {"content":"hi","finished":false}'' =
     Some (empty_chunk\<lparr>chunk_content := Some ''hi''\<rparr>) \<and>
   callbacks_of parse_chunk (Response True 200
      (Some [Value ''data: {"content":"hi","finished":false}''])) = [] \<and>
   callbacks_of parse_chunk (Response True 200
      (Some [Value ''data: {"content":"hi","finished":false}\<newline>''])) =
     [OnChunk (empty_chunk\<lparr>chunk_content := Some ''hi''\<rparr>)]\<close>
  by (intro conjI) (fact frame_examples(3), fact unterminated_frame, fact terminated_frame)

text \<open>
  C4 (as amended). At the end of the stream the text left in the carry-over buffer is
  discarded: the callbacks of a body are those of its complete lines, the segments of
  its text that a line feed ends, and text after the last line feed changes nothing,
  whatever it is. A last \<open>data: \<close> line reaches \<open>onChunk\<close> only when a line feed
  follows it.
\<close>

theorem C4_tail_discarded:
  "callbacks_of jp (Response True st (Some reads)) =
     chunk_events (frames jp (butlast (split_nl (concat (values_read reads))))) @
       (if \<not> list_ex finished (frames jp (butlast (split_nl (concat (values_read reads))))) \<and>
           read_rejected reads
        then [OnError NetworkError] else []) \<and>
   (\<not> read_rejected reads \<and> CHR 0x0A \<notin> set tail \<longrightarrow>
      callbacks_of jp (Response True st (Some (reads @ [Value tail]))) =
      callbacks_of jp (Response True st (Some reads)))"
proof -
  have c1: "callbacks_of jp (Response True st (Some reads)) =
     chunk_events (frames jp (butlast (split_nl (concat (values_read reads))))) @
       (if \<not> list_ex finished (frames jp (butlast (split_nl (concat (values_read reads))))) \<and>
           read_rejected reads
        then [OnError NetworkError] else [])"
    by (simp only: callbacks_of_body delivered_def complete_lines_def)
  have c2: "\<not> read_rejected reads \<and> CHR 0x0A \<notin> set tail \<longrightarrow>
      callbacks_of jp (Response True st (Some (reads @ [Value tail]))) =
      callbacks_of jp (Response True st (Some reads))"
    using callbacks_tail [of reads tail jp st] by blast
  show ?thesis
    by (intro conjI) (fact c1, fact c2)
qed

theorem C4_tail_discarded_witness:
  \<open>\<not> read_rejected [Value ''data: {"content":"a","finished":false}\<newline>''] \<and>
   CHR 0x0A \<notin> set ''data: {"content":"hi","finished":false}'' \<and>
   callbacks_of parse_chunk (Response True 200
     (Some ([Value ''data: {"content":"a","finished":false}\<newline>''] @
            [Value ''data: {"content":"hi","finished":false}'']))) =
   callbacks_of parse_chunk (Response True 200
     (Some [Value ''data: {"content":"a","finished":false}\<newline>''])) \<and>
   callbacks_of parse_chunk (Response True 200
     (Some [Value ''data: {"content":"a","finished":false}\<newline>''])) =
   [OnChunk (empty_chunk\<lparr>chunk_content := Some ''a''\<rparr>)]\<close>
proof -
  have nr: \<open>\<not> read_rejected [Value ''data: {"content":"a","finished":false}\<newline>'']\<close>
    by (simp add: read_rejected_def)
  have nl: \<open>CHR 0x0A \<notin> set ''data: {"content":"hi","finished":false}''\<close>
    by simp
  have same: \<open>callbacks_of parse_chunk (Response True 200
     (Some ([Value ''data: {"content":"a","finished":false}\<newline>''] @
            [Value ''data: {"content":"hi","finished":false}'']))) =
   callbacks_of parse_chunk (Response True 200
     (Some [Value ''data: {"content":"a","finished":false}\<newline>'']))\<close>
    using C4_tail_discarded [where jp = parse_chunk and st = 200
        and reads = \<open>[Value ''data: {"content":"a","finished":false}\<newline>'']\<close>
        and tail = \<open>''data: {"content":"hi","finished":false}''\<close>, THEN conjunct2] nr nl
    by blast
  have run: \<open>callbacks_of parse_chunk (Response True 200
     (Some [Value ''data: {"content":"a","finished":false}\<newline>''])) =
   [OnChunk (empty_chunk\<lparr>chunk_content := Some ''a''\<rparr>)]\<close>
    by code_simp
  show ?thesis
    by (intro conjI) (fact nr, fact nl, fact same, fact run)
qed

text \<open>
  C5. In the callbacks of one call: a chunk with \<open>finished\<close> is followed by
  \<open>onComplete\<close> and by nothing else, whatever the transport still holds;
  \<open>onComplete\<close> occurs only right after such a chunk and is the last callback, hence
  occurs at most once; \<open>onError\<close> is the last callback too, hence occurs at most once
  and no \<open>onChunk\<close> or \<open>onComplete\<close> follows it, and no \<open>onComplete\<close>, \<open>onError\<close> or
  finished chunk comes before it. \<open>onError\<close> occurs exactly when the transport fails
  (the fetch is rejected, or a read is rejected before a finished chunk was delivered),
  the status is not OK, or the response has no body. And when the body delivers a
  finished chunk, the callbacks are \<open>onChunk\<close> for the chunks up to and including the
  first finished one, then \<open>onComplete\<close>, whatever follows in the body.
\<close>

theorem C5_callback_protocol:
  "(\<forall>pre c post. callbacks_of jp r = pre @ OnChunk c # post \<and> finished c \<longrightarrow>
      post = [OnComplete]) \<and>
   (\<forall>pre post. callbacks_of jp r = pre @ OnComplete # post \<longrightarrow>
      post = [] \<and> (\<exists>pre' c. pre = pre' @ [OnChunk c] \<and> finished c)) \<and>
   (\<forall>pre e post. callbacks_of jp r = pre @ OnError e # post \<longrightarrow>
      post = [] \<and> OnComplete \<notin> set pre \<and> (\<forall>e'. OnError e' \<notin> set pre) \<and>
      (\<forall>c. OnChunk c \<in> set pre \<longrightarrow> \<not> finished c)) \<and>
   ((\<exists>e. OnError e \<in> set (callbacks_of jp r)) =
      (r = Rejected \<or> (\<exists>st b. r = Response False st b) \<or> (\<exists>st. r = Response True st None) \<or>
       (\<exists>st reads. r = Response True st (Some reads) \<and> read_rejected reads \<and>
          \<not> list_ex finished (delivered jp reads)))) \<and>
   (list_ex finished (delivered jp reads) \<longrightarrow>
      callbacks_of jp (Response True code (Some reads)) =
        map OnChunk (upto_finished (delivered jp reads)) @ [OnComplete])"
proof -
  have c5: "list_ex finished (delivered jp reads) \<longrightarrow>
      callbacks_of jp (Response True code (Some reads)) =
        map OnChunk (upto_finished (delivered jp reads)) @ [OnComplete]"
    by (simp add: callbacks_of_body chunk_events_finished)
  have c1: "\<forall>pre c post. callbacks_of jp r = pre @ OnChunk c # post \<and> finished c \<longrightarrow>
      post = [OnComplete]"
    using protocol_finished [of jp r] by blast
  have c2: "\<forall>pre post. callbacks_of jp r = pre @ OnComplete # post \<longrightarrow>
      post = [] \<and> (\<exists>pre' c. pre = pre' @ [OnChunk c] \<and> finished c)"
    using protocol_complete [of jp r] by blast
  have c3: "\<forall>pre e post. callbacks_of jp r = pre @ OnError e # post \<longrightarrow>
      post = [] \<and> OnComplete \<notin> set pre \<and> (\<forall>e'. OnError e' \<notin> set pre) \<and>
      (\<forall>c. OnChunk c \<in> set pre \<longrightarrow> \<not> finished c)"
    using protocol_error [of jp r] by blast
  show ?thesis
    by (intro conjI) (fact c1, fact c2, fact c3, fact protocol_error_iff, fact c5)
qed

lemma protocol_examples:
  \<open>callbacks_of parse_chunk (Response True 200
      (Some [Value ''data: {"content":"4","finished":false}\<newline>data: {"finished":true}\<newline>data: {"content":"late","finished":false}\<newline>'',
             ReadRejected])) =
    [OnChunk (empty_chunk\<lparr>chunk_content := Some ''4''\<rparr>)] @
      OnChunk (empty_chunk\<lparr>finished := True\<rparr>) # [OnComplete]\<close>
  \<open>callbacks_of parse_chunk (Response True 200
      (Some [Value ''data: {"content":"4","finished":false}\<newline>'', ReadRejected,
             Value ''data: {"finished":true}\<newline>''])) =
    [OnChunk (empty_chunk\<lparr>chunk_content := Some ''4''\<rparr>)] @ OnError NetworkError # []\<close>
  \<open>callbacks_of parse_chunk (Response False 500 None) = [OnError (HttpError 500)]\<close>
  by code_simp+

theorem C5_callback_protocol_witness:
  \<open>list_ex finished (delivered parse_chunk
      [Value ''data: {"content":"4","finished":false}\<newline>data: {"finished":true}\<newline>data: {"content":"late","finished":false}\<newline>'',
       ReadRejected]) \<and>
   callbacks_of parse_chunk (Response True 200
      (Some [Value ''data: {"content":"4","finished":false}\<newline>data: {"finished":true}\<newline>data: {"content":"late","finished":false}\<newline>'',
             ReadRejected])) =
    [OnChunk (empty_chunk\<lparr>chunk_content := Some ''4''\<rparr>)] @
      OnChunk (empty_chunk\<lparr>finished := True\<rparr>) # [OnComplete] \<and>
   finished (empty_chunk\<lparr>finished := True\<rparr>) \<and>
   callbacks_of parse_chunk (Response True 200
      (Some [Value ''data: {"content":"4","finished":false}\<newline>'', ReadRejected,
             Value ''data: {"finished":true}\<newline>''])) =
    [OnChunk (empty_chunk\<lparr>chunk_content := Some ''4''\<rparr>)] @ OnError NetworkError # [] \<and>
   OnComplete \<notin> set [OnChunk (empty_chunk\<lparr>chunk_content := Some ''4''\<rparr>)] \<and>
   (\<exists>e. OnError e \<in> set (callbacks_of parse_chunk (Response False 500 None)))\<close>
proof -
  let ?reads = \<open>[Value ''data: {"content":"4","finished":false}\<newline>data: {"finished":true}\<newline>data: {"content":"late","finished":false}\<newline>'',
       ReadRejected]\<close>
  have del: \<open>delivered parse_chunk ?reads =
      [empty_chunk\<lparr>chunk_content := Some ''4''\<rparr>, empty_chunk\<lparr>finished := True\<rparr>,
       empty_chunk\<lparr>chunk_content := Some ''late''\<rparr>]\<close>
    by code_simp
  have completes: "list_ex finished (delivered parse_chunk ?reads)"
    by (simp add: del empty_chunk_def)
  have "callbacks_of parse_chunk (Response True 200 (Some ?reads)) =
      map OnChunk (upto_finished (delivered parse_chunk ?reads)) @ [OnComplete]"
    using C5_callback_protocol [where jp = parse_chunk and reads = ?reads and code = 200,
        THEN conjunct2, THEN conjunct2, THEN conjunct2, THEN conjunct2] completes
    by blast
  then have run: "callbacks_of parse_chunk (Response True 200 (Some ?reads)) =
      [OnChunk (empty_chunk\<lparr>chunk_content := Some ''4''\<rparr>)] @
        OnChunk (empty_chunk\<lparr>finished := True\<rparr>) # [OnComplete]"
    by (simp add: del empty_chunk_def)
  have fin: "finished (empty_chunk\<lparr>finished := True\<rparr>)"
    by simp
  have quiet: \<open>OnComplete \<notin> set [OnChunk (empty_chunk\<lparr>chunk_content := Some ''4''\<rparr>)]\<close>
    using C5_callback_protocol [where jp = parse_chunk and r = \<open>Response True 200
      (Some [Value ''data: {"content":"4","finished":false}\<newline>'', ReadRejected,
             Value ''data: {"finished":true}\<newline>''])\<close>, THEN conjunct2, THEN conjunct2, THEN conjunct1]
      protocol_examples(2)
    by blast
  have err: "\<exists>e. OnError e \<in> set (callbacks_of parse_chunk (Response False 500 None))"
    using C5_callback_protocol [where jp = parse_chunk and r = "Response False 500 None",
        THEN conjunct2, THEN conjunct2, THEN conjunct2, THEN conjunct1]
    by blast
  show ?thesis
    by (intro conjI) (fact completes, fact run, fact fin, fact protocol_examples(2), fact quiet,
        fact err)
qed

subsection \<open>The fold of the chunk callback\<close>

lemma latest_Nil: "latest P init [] = init"
  by (simp add: latest_def)

lemma latest_Cons: "latest P init (x # xs) = latest P (if P x then x else init) xs"
  by (simp add: latest_def)

lemma contents_Nil: "contents [] = []"
  by (simp add: contents_def)

lemma contents_Cons:
  "contents (c # cs) = (case chunk_content c of None \<Rightarrow> [] | Some t \<Rightarrow> t) @ contents cs"
  by (simp add: contents_def)

lemma contents_append: "contents (cs @ ds) = contents cs @ contents ds"
  by (simp add: contents_def)

lemma truthy_string_content:
  "truthy_string x \<Longrightarrow> (case x of None \<Rightarrow> [] | Some t \<Rightarrow> t) = the x \<and> the x \<noteq> []"
  "\<not> truthy_string x \<Longrightarrow> (case x of None \<Rightarrow> [] | Some t \<Rightarrow> t) = []"
  by (auto simp: truthy_string_def split: option.splits)

lemma onChunk_step:
  "onChunk a c (st, loc) =
     (st\<lparr>messages :=
          (if truthy_string (chunk_content c)
           then map (\<lambda>msg. if msg_id msg = a
                            then msg\<lparr>content := fullContent loc @ the (chunk_content c)\<rparr> else msg)
                  (messages st)
           else messages st)\<rparr>,
      \<lparr>fullContent = fullContent loc @ (case chunk_content c of None \<Rightarrow> [] | Some t \<Rightarrow> t),
       finalConversationId =
         (if truthy_string (chunk_conversation_id c) then chunk_conversation_id c
          else finalConversationId loc),
       finalUserMessageId =
         (if truthy_number (user_message_id c) then user_message_id c else finalUserMessageId loc),
       finalAssistantMessageId =
         (if truthy_number (assistant_message_id c) then assistant_message_id c
          else finalAssistantMessageId loc)\<rparr>)"
  by (simp add: onChunk_def Let_def truthy_string_content)

lemma after_chunks_Nil: "after_chunks a [] p = p"
  by (simp add: after_chunks_def)

lemma after_chunks_Cons: "after_chunks a (c # cs) p = after_chunks a cs (onChunk a c p)"
  by (simp add: after_chunks_def)

lemma after_chunks_eq:
  "after_chunks a cs (st, loc) =
     (st\<lparr>messages :=
          (if contents cs = [] then messages st
           else map (\<lambda>msg. if msg_id msg = a
                            then msg\<lparr>content := fullContent loc @ contents cs\<rparr> else msg)
                  (messages st))\<rparr>,
      \<lparr>fullContent = fullContent loc @ contents cs,
       finalConversationId =
         latest truthy_string (finalConversationId loc) (map chunk_conversation_id cs),
       finalUserMessageId = latest truthy_number (finalUserMessageId loc) (map user_message_id cs),
       finalAssistantMessageId =
         latest truthy_number (finalAssistantMessageId loc) (map assistant_message_id cs)\<rparr>)"
proof (induction cs arbitrary: st loc)
  case Nil
  show ?case by (simp add: after_chunks_Nil contents_Nil latest_Nil)
next
  case (Cons c cs)
  show ?case
  proof (cases "truthy_string (chunk_content c)")
    case True
    then show ?thesis
      by (simp add: after_chunks_Cons onChunk_step Cons.IH contents_Cons latest_Cons
          truthy_string_content comp_def cong: if_cong)
  next
    case False
    then show ?thesis
      by (simp add: after_chunks_Cons onChunk_step Cons.IH contents_Cons latest_Cons
          truthy_string_content)
  qed
qed

subsection \<open>The send of the hook\<close>

lemma foldl_deliver_chunks:
  "foldl (deliver onC onE onD) p (map OnChunk cs) = foldl (\<lambda>q c. onC c q) p cs"
  by (induction cs arbitrary: p) simp_all

text \<open>The hook's send, as the hook's callbacks run over the callbacks of the request.\<close>

lemma sendStreamMessage_by_callbacks:
  assumes "trim message \<noteq> []"
  shows "sendStreamMessage jp clk r message st =
     (fst (foldl (deliver (onChunk (tempAssistantId clk))
                  (onError (now_user clk) (tempAssistantId clk))
                  (onComplete (currentConversation st) (now_user clk) (tempAssistantId clk)))
            (st\<lparr>isLoading := True,
                messages := messages st @ [userMessage clk (currentConversation st) message,
                                           assistantMessage clk (currentConversation st)],
                streamingMessageRef := Some (tempAssistantId clk)\<rparr>,
             start_locals (currentConversation st))
            (callbacks_of jp r)))\<lparr>isLoading := False\<rparr>"
  using assms
  by (simp add: sendStreamMessage_def Let_def api_by_callbacks split_beta)

text \<open>The two optimistic messages among messages with other ids.\<close>

lemma put_content_optimistic:
  assumes "\<forall>m \<in> set prev. msg_id m \<noteq> a" "msg_id u \<noteq> a" "msg_id am = a"
  shows "map (\<lambda>msg. if msg_id msg = a then msg\<lparr>content := x\<rparr> else msg) (prev @ [u, am]) =
         prev @ [u, am\<lparr>content := x\<rparr>]"
proof -
  have "map (\<lambda>msg. if msg_id msg = a then msg\<lparr>content := x\<rparr> else msg) prev = prev"
    using assms(1) by (induction prev) simp_all
  with assms(2,3) show ?thesis by simp
qed

lemma filter_put_content:
  "filter (\<lambda>msg. msg_id msg \<noteq> a \<and> msg_id msg \<noteq> u)
     (map (\<lambda>msg. if msg_id msg = a then msg\<lparr>content := x\<rparr> else msg) ms) =
   filter (\<lambda>msg. msg_id msg \<noteq> a \<and> msg_id msg \<noteq> u) ms"
  by (induction ms) simp_all

subsection \<open>Claim C8: the reduction of the chunks\<close>

lemma after_chunks_put:
  assumes "\<forall>m \<in> set (messages st). msg_id m = a \<longrightarrow> content m = fullContent loc"
  shows "messages (fst (after_chunks a cs (st, loc))) =
     map (\<lambda>msg. if msg_id msg = a then msg\<lparr>content := fullContent loc @ contents cs\<rparr> else msg)
       (messages st)"
proof (cases "contents cs = []")
  case True
  have "map (\<lambda>msg. if msg_id msg = a then msg\<lparr>content := fullContent loc\<rparr> else msg) ms = ms"
    if "\<forall>m \<in> set ms. msg_id m = a \<longrightarrow> content m = fullContent loc" for ms
    using that by (induction ms) simp_all
  from this [OF assms] have same:
    "map (\<lambda>msg. if msg_id msg = a then msg\<lparr>content := fullContent loc\<rparr> else msg) (messages st) =
     messages st" .
  show ?thesis by (simp add: after_chunks_eq True same cong: if_cong)
next
  case False
  then show ?thesis by (simp add: after_chunks_eq)
qed

lemma onChunk_absent:
  "chunk_conversation_id c = None \<Longrightarrow>
     finalConversationId (snd (onChunk a c (st, loc))) = finalConversationId loc"
  "user_message_id c = None \<Longrightarrow>
     finalUserMessageId (snd (onChunk a c (st, loc))) = finalUserMessageId loc"
  "assistant_message_id c = None \<Longrightarrow>
     finalAssistantMessageId (snd (onChunk a c (st, loc))) = finalAssistantMessageId loc"
  by (simp_all add: onChunk_step truthy_string_def truthy_number_def)

lemma run_8_3:
  \<open>after_chunks 8
     [empty_chunk\<lparr>chunk_content := Some ''A''\<rparr>,
      empty_chunk\<lparr>chunk_content := Some ''B'', chunk_conversation_id := Some ''c1''\<rparr>,
      empty_chunk\<lparr>finished := True, user_message_id := Some 1, assistant_message_id := Some 2\<rparr>]
     (initial_state\<lparr>messages :=
        [\<lparr>msg_id = 7, role = USER, content = ''hello'', conversation_id = None, created_at = []\<rparr>,
         \<lparr>msg_id = 8, role = ASSISTANT, content = [], conversation_id = None, created_at = []\<rparr>]\<rparr>,
      start_locals None) =
   (initial_state\<lparr>messages :=
        [\<lparr>msg_id = 7, role = USER, content = ''hello'', conversation_id = None, created_at = []\<rparr>,
         \<lparr>msg_id = 8, role = ASSISTANT, content = ''AB'', conversation_id = None, created_at = []\<rparr>]\<rparr>,
    \<lparr>fullContent = ''AB'', finalConversationId = Some ''c1'',
     finalUserMessageId = Some 1, finalAssistantMessageId = Some 2\<rparr>)\<close>
  by code_simp

lemma run_8_3_complete:
  \<open>messages (fst (onComplete None 7 8
     (initial_state\<lparr>messages :=
        [\<lparr>msg_id = 7, role = USER, content = ''hello'', conversation_id = None, created_at = []\<rparr>,
         \<lparr>msg_id = 8, role = ASSISTANT, content = ''AB'', conversation_id = None, created_at = []\<rparr>]\<rparr>,
      \<lparr>fullContent = ''AB'', finalConversationId = Some ''c1'',
       finalUserMessageId = Some 1, finalAssistantMessageId = Some 2\<rparr>))) =
     [\<lparr>msg_id = 1, role = USER, content = ''hello'', conversation_id = Some ''c1'', created_at = []\<rparr>,
      \<lparr>msg_id = 2, role = ASSISTANT, content = ''AB'', conversation_id = Some ''c1'', created_at = []\<rparr>]\<close>
  by code_simp

lemma zero_id_ignored:
  \<open>finalUserMessageId (snd (after_chunks 8
      [empty_chunk\<lparr>user_message_id := Some 7\<rparr>,
       empty_chunk\<lparr>user_message_id := Some 0, finished := True\<rparr>]
      (initial_state, start_locals None))) = Some 7\<close>
  by code_simp

lemma empty_conversation_ignored:
  \<open>finalConversationId (snd (after_chunks 8
      [empty_chunk\<lparr>chunk_conversation_id := Some ''c1''\<rparr>,
       empty_chunk\<lparr>chunk_conversation_id := Some [], finished := True\<rparr>]
      (initial_state, start_locals None))) = Some ''c1''\<close>
  by code_simp

text \<open>
  C8 as stated fails where a field is present with a falsy value: a user message id
  \<open>0\<close> in the latest chunk does not replace the \<open>7\<close> captured before, and an empty
  conversation id does not replace \<open>c1\<close>.
\<close>

theorem C8_falsy_field_counterexample:
  \<open>user_message_id (empty_chunk\<lparr>user_message_id := Some 0, finished := True\<rparr>) = Some 0 \<and>
   finalUserMessageId (snd (after_chunks 8
      [empty_chunk\<lparr>user_message_id := Some 7\<rparr>,
       empty_chunk\<lparr>user_message_id := Some 0, finished := True\<rparr>]
      (initial_state, start_locals None))) = Some 7 \<and>
   finalConversationId (snd (after_chunks 8
      [empty_chunk\<lparr>chunk_conversation_id := Some ''c1''\<rparr>,
       empty_chunk\<lparr>chunk_conversation_id := Some [], finished := True\<rparr>]
      (initial_state, start_locals None))) = Some ''c1''\<close>
  by (intro conjI) (simp add: empty_chunk_def, fact zero_id_ignored, fact empty_conversation_ignored)

text \<open>
  C8 (as amended). Over any sequence of chunks handed to \<open>onChunk\<close>, the running
  content is the concatenation of the content fields in arrival order, and it is the
  content of the assistant placeholder (of every message with its id, given that they
  held the running content before); each of the three metadata variables holds the
  value of the latest chunk in which the field was truthy (a non-empty conversation
  id, a non-zero message id), or its prior value when there is none: a chunk in which the
  field is absent leaves it untouched. The chunks of the specification's section 8.3 give
  the content \<open>AB\<close>, the conversation id \<open>c1\<close> and the final ids \<open>1\<close> and \<open>2\<close>.
\<close>

theorem C8_stream_reduction:
  \<open>fullContent (snd (after_chunks a cs (st, loc))) = fullContent loc @ contents cs \<and>
   ((\<forall>m \<in> set (messages st). msg_id m = a \<longrightarrow> content m = fullContent loc) \<longrightarrow>
      messages (fst (after_chunks a cs (st, loc))) =
        map (\<lambda>msg. if msg_id msg = a then msg\<lparr>content := fullContent loc @ contents cs\<rparr> else msg)
          (messages st)) \<and>
   finalConversationId (snd (after_chunks a cs (st, loc))) =
     latest truthy_string (finalConversationId loc) (map chunk_conversation_id cs) \<and>
   finalUserMessageId (snd (after_chunks a cs (st, loc))) =
     latest truthy_number (finalUserMessageId loc) (map user_message_id cs) \<and>
   finalAssistantMessageId (snd (after_chunks a cs (st, loc))) =
     latest truthy_number (finalAssistantMessageId loc) (map assistant_message_id cs) \<and>
   (chunk_conversation_id c = None \<longrightarrow>
      finalConversationId (snd (onChunk a c (st, loc))) = finalConversationId loc) \<and>
   (user_message_id c = None \<longrightarrow>
      finalUserMessageId (snd (onChunk a c (st, loc))) = finalUserMessageId loc) \<and>
   (assistant_message_id c = None \<longrightarrow>
      finalAssistantMessageId (snd (onChunk a c (st, loc))) = finalAssistantMessageId loc) \<and>
   after_chunks 8
     [empty_chunk\<lparr>chunk_content := Some ''A''\<rparr>,
      empty_chunk\<lparr>chunk_content := Some ''B'', chunk_conversation_id := Some ''c1''\<rparr>,
      empty_chunk\<lparr>finished := True, user_message_id := Some 1, assistant_message_id := Some 2\<rparr>]
     (initial_state\<lparr>messages :=
        [\<lparr>msg_id = 7, role = USER, content = ''hello'', conversation_id = None, created_at = []\<rparr>,
         \<lparr>msg_id = 8, role = ASSISTANT, content = [], conversation_id = None, created_at = []\<rparr>]\<rparr>,
      start_locals None) =
   (initial_state\<lparr>messages :=
        [\<lparr>msg_id = 7, role = USER, content = ''hello'', conversation_id = None, created_at = []\<rparr>,
         \<lparr>msg_id = 8, role = ASSISTANT, content = ''AB'', conversation_id = None, created_at = []\<rparr>]\<rparr>,
    \<lparr>fullContent = ''AB'', finalConversationId = Some ''c1'',
     finalUserMessageId = Some 1, finalAssistantMessageId = Some 2\<rparr>) \<and>
   messages (fst (onComplete None 7 8
     (initial_state\<lparr>messages :=
        [\<lparr>msg_id = 7, role = USER, content = ''hello'', conversation_id = None, created_at = []\<rparr>,
         \<lparr>msg_id = 8, role = ASSISTANT, content = ''AB'', conversation_id = None, created_at = []\<rparr>]\<rparr>,
      \<lparr>fullContent = ''AB'', finalConversationId = Some ''c1'',
       finalUserMessageId = Some 1, finalAssistantMessageId = Some 2\<rparr>))) =
     [\<lparr>msg_id = 1, role = USER, content = ''hello'', conversation_id = Some ''c1'', created_at = []\<rparr>,
      \<lparr>msg_id = 2, role = ASSISTANT, content = ''AB'', conversation_id = Some ''c1'', created_at = []\<rparr>]\<close>
proof -
  have c1: "fullContent (snd (after_chunks a cs (st, loc))) = fullContent loc @ contents cs"
    by (simp add: after_chunks_eq)
  have c2: "(\<forall>m \<in> set (messages st). msg_id m = a \<longrightarrow> content m = fullContent loc) \<longrightarrow>
      messages (fst (after_chunks a cs (st, loc))) =
        map (\<lambda>msg. if msg_id msg = a then msg\<lparr>content := fullContent loc @ contents cs\<rparr> else msg)
          (messages st)"
    using after_chunks_put [of st a loc cs] by blast
  have c3: "finalConversationId (snd (after_chunks a cs (st, loc))) =
     latest truthy_string (finalConversationId loc) (map chunk_conversation_id cs)"
    by (simp add: after_chunks_eq)
  have c4: "finalUserMessageId (snd (after_chunks a cs (st, loc))) =
     latest truthy_number (finalUserMessageId loc) (map user_message_id cs)"
    by (simp add: after_chunks_eq)
  have c5: "finalAssistantMessageId (snd (after_chunks a cs (st, loc))) =
     latest truthy_number (finalAssistantMessageId loc) (map assistant_message_id cs)"
    by (simp add: after_chunks_eq)
  have c6: "chunk_conversation_id c = None \<longrightarrow>
      finalConversationId (snd (onChunk a c (st, loc))) = finalConversationId loc"
    using onChunk_absent(1) [of c a st loc] by blast
  have c7: "user_message_id c = None \<longrightarrow>
      finalUserMessageId (snd (onChunk a c (st, loc))) = finalUserMessageId loc"
    using onChunk_absent(2) [of c a st loc] by blast
  have c8: "assistant_message_id c = None \<longrightarrow>
      finalAssistantMessageId (snd (onChunk a c (st, loc))) = finalAssistantMessageId loc"
    using onChunk_absent(3) [of c a st loc] by blast
  show ?thesis
    by (intro conjI) (fact c1, fact c2, fact c3, fact c4, fact c5, fact c6, fact c7, fact c8,
        fact run_8_3, fact run_8_3_complete)
qed

theorem C8_stream_reduction_witness:
  \<open>content \<lparr>msg_id = 8, role = ASSISTANT, content = [], conversation_id = None, created_at = []\<rparr> =
     fullContent (start_locals None) \<and>
   messages (fst (after_chunks 8
     [empty_chunk\<lparr>chunk_content := Some ''A''\<rparr>,
      empty_chunk\<lparr>chunk_content := Some ''B'', chunk_conversation_id := Some ''c1''\<rparr>]
     (initial_state\<lparr>messages :=
        [\<lparr>msg_id = 8, role = ASSISTANT, content = [], conversation_id = None, created_at = []\<rparr>]\<rparr>,
      start_locals None))) =
     [\<lparr>msg_id = 8, role = ASSISTANT, content = ''AB'', conversation_id = None, created_at = []\<rparr>] \<and>
   user_message_id (empty_chunk\<lparr>chunk_content := Some ''A''\<rparr>) = None \<and>
   finalUserMessageId (snd (onChunk 8 (empty_chunk\<lparr>chunk_content := Some ''A''\<rparr>)
     (initial_state, \<lparr>fullContent = [], finalConversationId = None, finalUserMessageId = Some 5,
        finalAssistantMessageId = None\<rparr>))) = Some 5\<close>
proof -
  let ?am = "\<lparr>msg_id = 8, role = ASSISTANT, content = [], conversation_id = None, created_at = []\<rparr>"
  let ?cs = "[empty_chunk\<lparr>chunk_content := Some ''A''\<rparr>,
      empty_chunk\<lparr>chunk_content := Some ''B'', chunk_conversation_id := Some ''c1''\<rparr>]"
  let ?loc = "\<lparr>fullContent = [], finalConversationId = None, finalUserMessageId = Some 5,
        finalAssistantMessageId = None\<rparr>"
  have h1: "content ?am = fullContent (start_locals None)"
    by (simp add: start_locals_def)
  then have h1': "\<forall>m \<in> set (messages (initial_state\<lparr>messages := [?am]\<rparr>)).
      msg_id m = 8 \<longrightarrow> content m = fullContent (start_locals None)"
    by simp
  have "messages (fst (after_chunks 8 ?cs (initial_state\<lparr>messages := [?am]\<rparr>, start_locals None))) =
      map (\<lambda>msg. if msg_id msg = 8
                 then msg\<lparr>content := fullContent (start_locals None) @ contents ?cs\<rparr> else msg)
        (messages (initial_state\<lparr>messages := [?am]\<rparr>))"
    using C8_stream_reduction [where a = 8 and cs = ?cs and st = "initial_state\<lparr>messages := [?am]\<rparr>"
        and loc = "start_locals None", THEN conjunct2, THEN conjunct1] h1'
    by blast
  then have w1: "messages (fst (after_chunks 8 ?cs (initial_state\<lparr>messages := [?am]\<rparr>, start_locals None))) =
      [\<lparr>msg_id = 8, role = ASSISTANT, content = ''AB'', conversation_id = None, created_at = []\<rparr>]"
    by (simp add: start_locals_def contents_def empty_chunk_def)
  have h2: "user_message_id (empty_chunk\<lparr>chunk_content := Some ''A''\<rparr>) = None"
    by (simp add: empty_chunk_def)
  have w2: "finalUserMessageId (snd (onChunk 8 (empty_chunk\<lparr>chunk_content := Some ''A''\<rparr>)
      (initial_state, ?loc))) = Some 5"
    using C8_stream_reduction [where a = 8 and c = "empty_chunk\<lparr>chunk_content := Some ''A''\<rparr>"
        and st = initial_state and loc = ?loc,
        THEN conjunct2, THEN conjunct2, THEN conjunct2, THEN conjunct2, THEN conjunct2,
        THEN conjunct2, THEN conjunct1] h2
    by simp
  show ?thesis
    by (intro conjI) (fact h1, fact w1, fact h2, fact w2)
qed

subsection \<open>The three outcomes of a send: failed, ended quietly, completed\<close>

lemma error_callbacks_shape:
  assumes "OnError e \<in> set (callbacks_of jp r)"
  shows "\<exists>cs e'. callbacks_of jp r = map OnChunk cs @ [OnError e']"
proof (cases r)
  case Rejected
  then show ?thesis by (simp add: callbacks_of_failures)
next
  case (Response k st b)
  show ?thesis
  proof (cases "k \<and> b \<noteq> None")
    case False
    with Response show ?thesis
      by (cases k; cases b) (simp_all add: callbacks_of_failures)
  next
    case True
    then obtain reads where r: "r = Response True st (Some reads)"
      using Response by auto
    show ?thesis
    proof (cases rule: callbacks_of_cases [where jp = jp and st = st and reads = reads])
      case quiet
      with assms r show ?thesis by (simp add: chunk_events_no_error)
    next
      case failed
      with r show ?thesis by blast
    qed
  qed
qed

lemma fst_onError:
  "fst (onError u a e p) =
     (fst p)\<lparr>toasts := toasts (fst p) @ [SendFailed],
             messages := filter (\<lambda>msg. msg_id msg \<noteq> a \<and> msg_id msg \<noteq> u) (messages (fst p))\<rparr>"
  by (simp add: onError_def split_beta)

lemma send_failed:
  assumes "trim message \<noteq> []" "OnError e \<in> set (callbacks_of jp r)"
  shows "sendStreamMessage jp clk r message st =
     st\<lparr>messages :=
          filter (\<lambda>msg. msg_id msg \<noteq> tempAssistantId clk \<and> msg_id msg \<noteq> now_user clk) (messages st),
        isLoading := False,
        streamingMessageRef := Some (tempAssistantId clk),
        toasts := toasts st @ [SendFailed]\<rparr>"
proof -
  obtain cs e' where shape: "callbacks_of jp r = map OnChunk cs @ [OnError e']"
    using error_callbacks_shape [OF assms(2)] by blast
  let ?P = "\<lambda>msg. msg_id msg \<noteq> tempAssistantId clk \<and> msg_id msg \<noteq> now_user clk"
  let ?two = "[userMessage clk (currentConversation st) message,
               assistantMessage clk (currentConversation st)]"
  define st3 where "st3 = st\<lparr>isLoading := True, messages := messages st @ ?two,
      streamingMessageRef := Some (tempAssistantId clk)\<rparr>"
  have m3: "messages st3 = messages st @ ?two"
    by (simp add: st3_def)
  have two: "filter ?P (messages st3) = filter ?P (messages st)"
    by (simp add: m3 userMessage_def assistantMessage_def)
  have run: "sendStreamMessage jp clk r message st =
      (fst (onError (now_user clk) (tempAssistantId clk) e'
         (after_chunks (tempAssistantId clk) cs (st3, start_locals (currentConversation st)))))
        \<lparr>isLoading := False\<rparr>"
    unfolding sendStreamMessage_by_callbacks [OF assms(1)] shape st3_def
    by (simp add: foldl_deliver_chunks after_chunks_def)
  obtain M where ac: "fst (after_chunks (tempAssistantId clk) cs
        (st3, start_locals (currentConversation st))) = st3\<lparr>messages := M\<rparr>"
    and fM: "filter ?P M = filter ?P (messages st)"
  proof (cases "contents cs = []")
    case True
    then have "fst (after_chunks (tempAssistantId clk) cs
        (st3, start_locals (currentConversation st))) = st3\<lparr>messages := messages st3\<rparr>"
      by (simp add: after_chunks_eq)
    with two that show ?thesis by blast
  next
    case False
    let ?M = "map (\<lambda>msg. if msg_id msg = tempAssistantId clk
        then msg\<lparr>content := fullContent (start_locals (currentConversation st)) @ contents cs\<rparr>
        else msg) (messages st3)"
    from False have "fst (after_chunks (tempAssistantId clk) cs
        (st3, start_locals (currentConversation st))) = st3\<lparr>messages := ?M\<rparr>"
      by (simp add: after_chunks_eq)
    moreover have "filter ?P ?M = filter ?P (messages st)"
      by (simp only: filter_put_content two)
    ultimately show ?thesis using that by blast
  qed
  show ?thesis
    by (simp add: run fst_onError ac fM) (simp add: st3_def)
qed

text \<open>The state after the chunks of a send, when the placeholder ids are the two messages' own.\<close>

lemma after_chunks_optimistic:
  assumes fresh: "\<forall>m \<in> set (messages st). msg_id m \<noteq> tempAssistantId clk"
    and apart: "now_user clk \<noteq> tempAssistantId clk"
  shows "after_chunks (tempAssistantId clk) cs
      (st\<lparr>isLoading := True,
          messages := messages st @ [userMessage clk cur message, assistantMessage clk cur],
          streamingMessageRef := Some (tempAssistantId clk)\<rparr>,
       start_locals cur) =
     (st\<lparr>isLoading := True,
         messages := messages st @
           [userMessage clk cur message, (assistantMessage clk cur)\<lparr>content := contents cs\<rparr>],
         streamingMessageRef := Some (tempAssistantId clk)\<rparr>,
      \<lparr>fullContent = contents cs,
       finalConversationId = latest truthy_string cur (map chunk_conversation_id cs),
       finalUserMessageId = latest truthy_number None (map user_message_id cs),
       finalAssistantMessageId = latest truthy_number None (map assistant_message_id cs)\<rparr>)"
proof -
  let ?u = "userMessage clk cur message" and ?a = "assistantMessage clk cur"
  have ids: "msg_id ?u \<noteq> tempAssistantId clk" "msg_id ?a = tempAssistantId clk"
    using apart by (simp_all add: userMessage_def assistantMessage_def)
  have put: "map (\<lambda>msg. if msg_id msg = tempAssistantId clk then msg\<lparr>content := x\<rparr> else msg)
      (messages st @ [?u, ?a]) = messages st @ [?u, ?a\<lparr>content := x\<rparr>]" for x
    by (rule put_content_optimistic [OF fresh ids])
  have blank: "?a\<lparr>content := []\<rparr> = ?a"
    by (simp add: assistantMessage_def)
  show ?thesis
  proof (cases "contents cs = []")
    case True
    then show ?thesis
      by (simp add: after_chunks_eq start_locals_def blank)
  next
    case False
    then show ?thesis
      by (simp add: after_chunks_eq start_locals_def put del: map_append)
  qed
qed

lemma send_quiet:
  assumes "trim message \<noteq> []"
    and "\<not> read_rejected reads" "\<not> list_ex finished (delivered jp reads)"
    and fresh: "\<forall>m \<in> set (messages st). msg_id m \<noteq> tempAssistantId clk"
    and apart: "now_user clk \<noteq> tempAssistantId clk"
  shows "sendStreamMessage jp clk (Response True code (Some reads)) message st =
     st\<lparr>messages := messages st @
          [userMessage clk (currentConversation st) message,
           (assistantMessage clk (currentConversation st))\<lparr>content := contents (delivered jp reads)\<rparr>],
        isLoading := False,
        streamingMessageRef := Some (tempAssistantId clk)\<rparr>"
proof -
  have shape: "callbacks_of jp (Response True code (Some reads)) = map OnChunk (delivered jp reads)"
    using assms(2,3) by (simp add: callbacks_of_body chunk_events_unfinished)
  show ?thesis
    unfolding sendStreamMessage_by_callbacks [OF assms(1)] shape
    by (simp add: foldl_deliver_chunks after_chunks_def [symmetric]
        after_chunks_optimistic [OF fresh apart])
qed

lemma fst_onComplete:
  "fst (onComplete cur u a (st, loc)) =
     st\<lparr>messages :=
          map (\<lambda>msg.
                 if msg_id msg = u \<and> truthy_number (finalUserMessageId loc)
                 then msg\<lparr>msg_id := the (finalUserMessageId loc),
                          conversation_id := finalConversationId loc\<rparr>
                 else if msg_id msg = a \<and> truthy_number (finalAssistantMessageId loc)
                 then msg\<lparr>msg_id := the (finalAssistantMessageId loc),
                          conversation_id := finalConversationId loc\<rparr>
                 else msg)
            (messages st),
        currentConversation :=
          (if \<not> truthy_string cur \<and> truthy_string (finalConversationId loc)
           then finalConversationId loc else currentConversation st),
        loadConversationsCalls :=
          (if \<not> truthy_string cur \<and> truthy_string (finalConversationId loc)
           then loadConversationsCalls st + 1 else loadConversationsCalls st),
        streamingMessageRef := None\<rparr>"
  by (simp add: onComplete_def Let_def)

lemma reconcile_optimistic:
  assumes "\<forall>m \<in> set prev. msg_id m \<noteq> u \<and> msg_id m \<noteq> a"
    and "msg_id um = u" "msg_id am = a" "u \<noteq> a"
  shows "map (\<lambda>msg. if msg_id msg = u \<and> tu then f msg
                    else if msg_id msg = a \<and> ta then g msg else msg) (prev @ [um, am]) =
         prev @ [if tu then f um else um, if ta then g am else am]"
proof -
  have "map (\<lambda>msg. if msg_id msg = u \<and> tu then f msg
                    else if msg_id msg = a \<and> ta then g msg else msg) prev = prev"
    using assms(1) by (induction prev) simp_all
  with assms(2-4) show ?thesis by simp
qed

lemma send_completed:
  assumes "trim message \<noteq> []"
    and "list_ex finished (delivered jp reads)"
    and fresh: "\<forall>m \<in> set (messages st). msg_id m \<noteq> now_user clk \<and> msg_id m \<noteq> tempAssistantId clk"
    and apart: "now_user clk \<noteq> tempAssistantId clk"
  shows "sendStreamMessage jp clk (Response True code (Some reads)) message st =
     (let cur = currentConversation st;
          cs = upto_finished (delivered jp reads);
          conv = latest truthy_string cur (map chunk_conversation_id cs);
          uid = latest truthy_number None (map user_message_id cs);
          aid = latest truthy_number None (map assistant_message_id cs);
          adopt = (\<not> truthy_string cur \<and> truthy_string conv)
      in st\<lparr>messages := messages st @
             [if truthy_number uid
              then (userMessage clk cur message)\<lparr>msg_id := the uid, conversation_id := conv\<rparr>
              else userMessage clk cur message,
              if truthy_number aid
              then (assistantMessage clk cur)\<lparr>msg_id := the aid, content := contents cs,
                     conversation_id := conv\<rparr>
              else (assistantMessage clk cur)\<lparr>content := contents cs\<rparr>],
           currentConversation := (if adopt then conv else cur),
           isLoading := False,
           streamingMessageRef := None,
           loadConversationsCalls :=
             (if adopt then loadConversationsCalls st + 1 else loadConversationsCalls st)\<rparr>)"
proof -
  let ?cur = "currentConversation st"
  let ?cs = "upto_finished (delivered jp reads)"
  let ?u = "userMessage clk ?cur message"
  let ?a = "(assistantMessage clk ?cur)\<lparr>content := contents ?cs\<rparr>"
  have shape: "callbacks_of jp (Response True code (Some reads)) = map OnChunk ?cs @ [OnComplete]"
    using assms(2) by (simp add: callbacks_of_body chunk_events_finished)
  have fresh_a: "\<forall>m \<in> set (messages st). msg_id m \<noteq> tempAssistantId clk"
    using fresh by blast
  have ids: "msg_id ?u = now_user clk" "msg_id ?a = tempAssistantId clk"
    by (simp_all add: userMessage_def assistantMessage_def)
  note recon = reconcile_optimistic [OF fresh ids apart]
  show ?thesis
    unfolding sendStreamMessage_by_callbacks [OF assms(1)] shape
    by (simp add: foldl_deliver_chunks after_chunks_def [symmetric]
        after_chunks_optimistic [OF fresh_a apart] fst_onComplete recon Let_def
        del: map_append)
qed

subsection \<open>Claims C2 and C10: rollback, and a stream that ends unfinished\<close>

lemma trim_examples: "trim ''hello'' = ''hello''" "trim ''2+2?'' = ''2+2?''"
  by (simp_all add: trim_def is_space_def)

lemma sample_clock_apart: "now_user sample_clock \<noteq> tempAssistantId sample_clock"
  by (simp add: sample_clock_def tempAssistantId_def)

text \<open>
  C2. When the error callback fires during a send, the list afterwards holds no
  message with one of the two placeholder ids of the send: the user message and the
  assistant placeholder are gone. The other messages stay as they were, so, given that
  no earlier message carried one of the two ids (ids are unique in the list), the list
  is the list before the send and has its length. The failure is shown to the user by
  one notice, and the send is no longer loading.
\<close>

theorem C2_rollback_on_error:
  assumes "trim message \<noteq> []" and "OnError e \<in> set (callbacks_of jp r)"
  shows "(\<forall>m \<in> set (messages (sendStreamMessage jp clk r message st)).
            msg_id m \<noteq> now_user clk \<and> msg_id m \<noteq> tempAssistantId clk) \<and>
         messages (sendStreamMessage jp clk r message st) =
           filter (\<lambda>msg. msg_id msg \<noteq> tempAssistantId clk \<and> msg_id msg \<noteq> now_user clk) (messages st) \<and>
         ((\<forall>m \<in> set (messages st). msg_id m \<noteq> now_user clk \<and> msg_id m \<noteq> tempAssistantId clk) \<longrightarrow>
            messages (sendStreamMessage jp clk r message st) = messages st \<and>
            length (messages (sendStreamMessage jp clk r message st)) = length (messages st)) \<and>
         toasts (sendStreamMessage jp clk r message st) = toasts st @ [SendFailed] \<and>
         isLoading (sendStreamMessage jp clk r message st) = False"
proof -
  note final = send_failed [OF assms, of clk st]
  have c2: "messages (sendStreamMessage jp clk r message st) =
      filter (\<lambda>msg. msg_id msg \<noteq> tempAssistantId clk \<and> msg_id msg \<noteq> now_user clk) (messages st)"
    by (simp add: final)
  have c1: "\<forall>m \<in> set (messages (sendStreamMessage jp clk r message st)).
      msg_id m \<noteq> now_user clk \<and> msg_id m \<noteq> tempAssistantId clk"
    unfolding c2 by simp
  have c3: "(\<forall>m \<in> set (messages st). msg_id m \<noteq> now_user clk \<and> msg_id m \<noteq> tempAssistantId clk) \<longrightarrow>
      messages (sendStreamMessage jp clk r message st) = messages st \<and>
      length (messages (sendStreamMessage jp clk r message st)) = length (messages st)"
  proof
    assume "\<forall>m \<in> set (messages st). msg_id m \<noteq> now_user clk \<and> msg_id m \<noteq> tempAssistantId clk"
    then have "filter (\<lambda>msg. msg_id msg \<noteq> tempAssistantId clk \<and> msg_id msg \<noteq> now_user clk)
        (messages st) = messages st"
      by (induction "messages st") (auto simp: filter_id_conv)
    then show "messages (sendStreamMessage jp clk r message st) = messages st \<and>
      length (messages (sendStreamMessage jp clk r message st)) = length (messages st)"
      by (simp add: c2)
  qed
  have c4: "toasts (sendStreamMessage jp clk r message st) = toasts st @ [SendFailed]"
    by (simp add: final)
  have c5: "isLoading (sendStreamMessage jp clk r message st) = False"
    by (simp add: final)
  show ?thesis
    by (intro conjI) (fact c1, fact c2, fact c3, fact c4, fact c5)
qed

theorem C2_rollback_on_error_witness:
  \<open>trim ''hello'' \<noteq> [] \<and>
   OnError NetworkError \<in> set (callbacks_of parse_chunk (Response True 200 (Some [ReadRejected]))) \<and>
   messages (sendStreamMessage parse_chunk sample_clock (Response True 200 (Some [ReadRejected]))
      ''hello''
      (initial_state\<lparr>messages := [\<lparr>msg_id = 5, role = USER, content = ''hi'',
          conversation_id = None, created_at = []\<rparr>]\<rparr>)) =
     [\<lparr>msg_id = 5, role = USER, content = ''hi'', conversation_id = None, created_at = []\<rparr>] \<and>
   length (messages (sendStreamMessage parse_chunk sample_clock (Response True 200 (Some [ReadRejected]))
      ''hello''
      (initial_state\<lparr>messages := [\<lparr>msg_id = 5, role = USER, content = ''hi'',
          conversation_id = None, created_at = []\<rparr>]\<rparr>))) = 1 \<and>
   toasts (sendStreamMessage parse_chunk sample_clock (Response True 200 (Some [ReadRejected]))
      ''hello''
      (initial_state\<lparr>messages := [\<lparr>msg_id = 5, role = USER, content = ''hi'',
          conversation_id = None, created_at = []\<rparr>]\<rparr>)) = [SendFailed]\<close>
proof -
  let ?st = "initial_state\<lparr>messages := [\<lparr>msg_id = 5, role = USER, content = ''hi'',
          conversation_id = None, created_at = []\<rparr>]\<rparr>"
  let ?r = "Response True 200 (Some [ReadRejected])"
  have h1: "trim ''hello'' \<noteq> []"
    by (simp add: trim_examples)
  have h2: "OnError NetworkError \<in> set (callbacks_of parse_chunk ?r)"
    by (simp add: callbacks_of_def api_sendStreamMessage_def)
  note all = C2_rollback_on_error [OF h1 h2, of sample_clock ?st]
  have fresh: "\<forall>m \<in> set (messages ?st).
      msg_id m \<noteq> now_user sample_clock \<and> msg_id m \<noteq> tempAssistantId sample_clock"
    by (simp add: sample_clock_def tempAssistantId_def)
  have "messages (sendStreamMessage parse_chunk sample_clock ?r ''hello'' ?st) = messages ?st \<and>
      length (messages (sendStreamMessage parse_chunk sample_clock ?r ''hello'' ?st)) =
        length (messages ?st)"
    using all [THEN conjunct2, THEN conjunct2, THEN conjunct1] fresh by blast
  then have w1: "messages (sendStreamMessage parse_chunk sample_clock ?r ''hello'' ?st) =
      [\<lparr>msg_id = 5, role = USER, content = ''hi'', conversation_id = None, created_at = []\<rparr>]"
    and w2: "length (messages (sendStreamMessage parse_chunk sample_clock ?r ''hello'' ?st)) = 1"
    by simp_all
  have w3: "toasts (sendStreamMessage parse_chunk sample_clock ?r ''hello'' ?st) = [SendFailed]"
    using all [THEN conjunct2, THEN conjunct2, THEN conjunct2, THEN conjunct1]
    by (simp add: initial_state_def)
  show ?thesis
    by (intro conjI) (fact h1, fact h2, fact w1, fact w2, fact w3)
qed

text \<open>
  C10. When the response is OK and has a body, no read is rejected and the body ends
  before a finished chunk was delivered, the request makes only \<open>onChunk\<close> callbacks:
  neither \<open>onComplete\<close> nor \<open>onError\<close>. The send of the hook then ends with both
  optimistic messages still in the list under their placeholder ids (the assistant
  placeholder with the content received so far), not loading, and without a notice.
\<close>

theorem C10_stream_ends_unfinished:
  "(\<not> read_rejected reads \<and> \<not> list_ex finished (delivered jp reads) \<longrightarrow>
      callbacks_of jp (Response True code (Some reads)) = map OnChunk (delivered jp reads) \<and>
      OnComplete \<notin> set (callbacks_of jp (Response True code (Some reads))) \<and>
      (\<forall>e. OnError e \<notin> set (callbacks_of jp (Response True code (Some reads))))) \<and>
   (trim message \<noteq> [] \<and> \<not> read_rejected reads \<and> \<not> list_ex finished (delivered jp reads) \<and>
    (\<forall>m \<in> set (messages st). msg_id m \<noteq> tempAssistantId clk) \<and>
    now_user clk \<noteq> tempAssistantId clk \<longrightarrow>
      sendStreamMessage jp clk (Response True code (Some reads)) message st =
        st\<lparr>messages := messages st @
             [userMessage clk (currentConversation st) message,
              (assistantMessage clk (currentConversation st))
                \<lparr>content := contents (delivered jp reads)\<rparr>],
           isLoading := False,
           streamingMessageRef := Some (tempAssistantId clk)\<rparr> \<and>
      msg_id (userMessage clk (currentConversation st) message) = now_user clk \<and>
      msg_id ((assistantMessage clk (currentConversation st))
                \<lparr>content := contents (delivered jp reads)\<rparr>) = tempAssistantId clk)"
proof -
  have c1: "\<not> read_rejected reads \<and> \<not> list_ex finished (delivered jp reads) \<longrightarrow>
      callbacks_of jp (Response True code (Some reads)) = map OnChunk (delivered jp reads) \<and>
      OnComplete \<notin> set (callbacks_of jp (Response True code (Some reads))) \<and>
      (\<forall>e. OnError e \<notin> set (callbacks_of jp (Response True code (Some reads))))"
    by (auto simp: callbacks_of_body chunk_events_unfinished)
  have c2: "trim message \<noteq> [] \<and> \<not> read_rejected reads \<and> \<not> list_ex finished (delivered jp reads) \<and>
    (\<forall>m \<in> set (messages st). msg_id m \<noteq> tempAssistantId clk) \<and>
    now_user clk \<noteq> tempAssistantId clk \<longrightarrow>
      sendStreamMessage jp clk (Response True code (Some reads)) message st =
        st\<lparr>messages := messages st @
             [userMessage clk (currentConversation st) message,
              (assistantMessage clk (currentConversation st))
                \<lparr>content := contents (delivered jp reads)\<rparr>],
           isLoading := False,
           streamingMessageRef := Some (tempAssistantId clk)\<rparr> \<and>
      msg_id (userMessage clk (currentConversation st) message) = now_user clk \<and>
      msg_id ((assistantMessage clk (currentConversation st))
                \<lparr>content := contents (delivered jp reads)\<rparr>) = tempAssistantId clk"
    using send_quiet [of message reads jp st clk code]
    by (simp add: userMessage_def assistantMessage_def)
  show ?thesis
    by (intro conjI) (fact c1, fact c2)
qed

theorem C10_stream_ends_unfinished_witness:
  \<open>trim ''hello'' \<noteq> [] \<and>
   \<not> read_rejected [Value ''data: {"content":"4","finished":false}\<newline>''] \<and>
   \<not> list_ex finished (delivered parse_chunk [Value ''data: {"content":"4","finished":false}\<newline>'']) \<and>
   messages initial_state = [] \<and>
   now_user sample_clock \<noteq> tempAssistantId sample_clock \<and>
   callbacks_of parse_chunk
     (Response True 200 (Some [Value ''data: {"content":"4","finished":false}\<newline>''])) =
     [OnChunk (empty_chunk\<lparr>chunk_content := Some ''4''\<rparr>)] \<and>
   sendStreamMessage parse_chunk sample_clock
     (Response True 200 (Some [Value ''data: {"content":"4","finished":false}\<newline>'']))
     ''hello'' initial_state =
   \<lparr>messages =
      [\<lparr>msg_id = 1700000000000, role = USER, content = ''hello'', conversation_id = None,
         created_at = ''2023-11-14T22:13:20.000Z''\<rparr>,
       \<lparr>msg_id = 1700000000001, role = ASSISTANT, content = ''4'', conversation_id = None,
         created_at = ''2023-11-14T22:13:20.000Z''\<rparr>],
    currentConversation = None, isLoading = False,
    streamingMessageRef = Some 1700000000001, toasts = [], loadConversationsCalls = 0\<rparr>\<close>
proof -
  let ?reads = \<open>[Value ''data: {"content":"4","finished":false}\<newline>'']\<close>
  have del: "delivered parse_chunk ?reads = [empty_chunk\<lparr>chunk_content := Some ''4''\<rparr>]"
    by code_simp
  have h1: "trim ''hello'' \<noteq> []"
    by (simp add: trim_examples)
  have h2: "\<not> read_rejected ?reads"
    by (simp add: read_rejected_def)
  have h3: "\<not> list_ex finished (delivered parse_chunk ?reads)"
    by (simp add: del empty_chunk_def)
  have h4: "messages initial_state = []"
    by (simp add: initial_state_def)
  then have h4': "\<forall>m \<in> set (messages initial_state). msg_id m \<noteq> tempAssistantId sample_clock"
    by simp
  note h5 = sample_clock_apart
  note all = C10_stream_ends_unfinished [where jp = parse_chunk and reads = ?reads and code = 200
      and message = "''hello''" and st = initial_state and clk = sample_clock]
  have "callbacks_of parse_chunk (Response True 200 (Some ?reads)) =
      map OnChunk (delivered parse_chunk ?reads)"
    using all [THEN conjunct1] h2 h3 by blast
  then have w1: "callbacks_of parse_chunk (Response True 200 (Some ?reads)) =
      [OnChunk (empty_chunk\<lparr>chunk_content := Some ''4''\<rparr>)]"
    by (simp add: del)
  have "sendStreamMessage parse_chunk sample_clock (Response True 200 (Some ?reads))
      ''hello'' initial_state =
      initial_state\<lparr>messages := messages initial_state @
             [userMessage sample_clock (currentConversation initial_state) ''hello'',
              (assistantMessage sample_clock (currentConversation initial_state))
                \<lparr>content := contents (delivered parse_chunk ?reads)\<rparr>],
           isLoading := False,
           streamingMessageRef := Some (tempAssistantId sample_clock)\<rparr>"
    using all [THEN conjunct2] h1 h2 h3 h4' h5 by blast
  then have w2: "sendStreamMessage parse_chunk sample_clock (Response True 200 (Some ?reads))
      ''hello'' initial_state =
    \<lparr>messages =
      [\<lparr>msg_id = 1700000000000, role = USER, content = ''hello'', conversation_id = None,
         created_at = ''2023-11-14T22:13:20.000Z''\<rparr>,
       \<lparr>msg_id = 1700000000001, role = ASSISTANT, content = ''4'', conversation_id = None,
         created_at = ''2023-11-14T22:13:20.000Z''\<rparr>],
     currentConversation = None, isLoading = False,
     streamingMessageRef = Some 1700000000001, toasts = [], loadConversationsCalls = 0\<rparr>"
    by (simp add: del initial_state_def sample_clock_def userMessage_def assistantMessage_def
        tempAssistantId_def or_undefined_def truthy_string_def contents_def empty_chunk_def
        trim_examples)
  show ?thesis
    by (intro conjI) (fact h1, fact h2, fact h3, fact h4, fact h5, fact w1, fact w2)
qed

subsection \<open>Claim C1: reconciliation on completion\<close>

lemma run_8_7:
  \<open>sendStreamMessage parse_chunk sample_clock
     (Response True 200
        (Some [Value ''data: {"content":"4","finished":false}\<newline>'',
               Value ''data: {"finished":true,"conversation_id":"conv-9","user_message_id":101,"assistant_message_id":102}\<newline>'']))
     ''2+2?'' initial_state =
   \<lparr>messages =
      [\<lparr>msg_id = 101, role = USER, content = ''2+2?'', conversation_id = Some ''conv-9'',
         created_at = ''2023-11-14T22:13:20.000Z''\<rparr>,
       \<lparr>msg_id = 102, role = ASSISTANT, content = ''4'', conversation_id = Some ''conv-9'',
         created_at = ''2023-11-14T22:13:20.000Z''\<rparr>],
    currentConversation = Some ''conv-9'', isLoading = False,
    streamingMessageRef = None, toasts = [], loadConversationsCalls = 1\<rparr>\<close>
  by code_simp

lemma run_without_user_id:
  \<open>sendStreamMessage parse_chunk sample_clock
     (Response True 200
        (Some [Value ''data: {"content":"4","finished":false}\<newline>'',
               Value ''data: {"finished":true,"conversation_id":"conv-9","assistant_message_id":102}\<newline>'']))
     ''2+2?'' initial_state =
   \<lparr>messages =
      [\<lparr>msg_id = 1700000000000, role = USER, content = ''2+2?'', conversation_id = None,
         created_at = ''2023-11-14T22:13:20.000Z''\<rparr>,
       \<lparr>msg_id = 102, role = ASSISTANT, content = ''4'', conversation_id = Some ''conv-9'',
         created_at = ''2023-11-14T22:13:20.000Z''\<rparr>],
    currentConversation = Some ''conv-9'', isLoading = False,
    streamingMessageRef = None, toasts = [], loadConversationsCalls = 1\<rparr>\<close>
  by code_simp

text \<open>
  C1 as stated fails when the stream completes without a user message id: the resolved
  conversation id is \<open>conv-9\<close> and becomes current, the assistant message gets it, but
  the user message keeps its placeholder id and its conversation id stays undefined.
\<close>

theorem C1_conversation_id_counterexample:
  \<open>sendStreamMessage parse_chunk sample_clock
     (Response True 200
        (Some [Value ''data: {"content":"4","finished":false}\<newline>'',
               Value ''data: {"finished":true,"conversation_id":"conv-9","assistant_message_id":102}\<newline>'']))
     ''2+2?'' initial_state =
   \<lparr>messages =
      [\<lparr>msg_id = 1700000000000, role = USER, content = ''2+2?'', conversation_id = None,
         created_at = ''2023-11-14T22:13:20.000Z''\<rparr>,
       \<lparr>msg_id = 102, role = ASSISTANT, content = ''4'', conversation_id = Some ''conv-9'',
         created_at = ''2023-11-14T22:13:20.000Z''\<rparr>],
    currentConversation = Some ''conv-9'', isLoading = False,
    streamingMessageRef = None, toasts = [], loadConversationsCalls = 1\<rparr> \<and>
   conversation_id (hd (messages (sendStreamMessage parse_chunk sample_clock
     (Response True 200
        (Some [Value ''data: {"content":"4","finished":false}\<newline>'',
               Value ''data: {"finished":true,"conversation_id":"conv-9","assistant_message_id":102}\<newline>'']))
     ''2+2?'' initial_state))) \<noteq> Some ''conv-9''\<close>
  by (simp add: run_without_user_id)

text \<open>
  C1 (as amended). When the stream of a send completes (a finished chunk is
  delivered), with the placeholder ids of the send distinct and carried by no earlier
  message: the earlier messages stay; the user message gets the server's user message
  id and the final conversation id if a truthy (non-zero) user message id was received,
  and otherwise stays as it was; the assistant placeholder holds the received content
  and gets the server's assistant message id and the final conversation id if a truthy
  assistant message id was received, and otherwise keeps its id and conversation id.
  The final conversation id is the latest truthy one received, or else the conversation
  of the send. If the send started without a conversation and the final conversation id
  is truthy, it becomes the current conversation and the conversation list is reloaded
  once. The run of the specification's section 8.7 ends with the two messages \<open>101\<close> and
  \<open>102\<close> in conversation \<open>conv-9\<close>, which is current.
\<close>

theorem C1_reconciliation:
  \<open>(trim message \<noteq> [] \<and> list_ex finished (delivered jp reads) \<and>
    (\<forall>m \<in> set (messages st). msg_id m \<noteq> now_user clk \<and> msg_id m \<noteq> tempAssistantId clk) \<and>
    now_user clk \<noteq> tempAssistantId clk \<longrightarrow>
    sendStreamMessage jp clk (Response True code (Some reads)) message st =
     (let cur = currentConversation st;
          cs = upto_finished (delivered jp reads);
          conv = latest truthy_string cur (map chunk_conversation_id cs);
          uid = latest truthy_number None (map user_message_id cs);
          aid = latest truthy_number None (map assistant_message_id cs);
          adopt = (\<not> truthy_string cur \<and> truthy_string conv)
      in st\<lparr>messages := messages st @
             [if truthy_number uid
              then (userMessage clk cur message)\<lparr>msg_id := the uid, conversation_id := conv\<rparr>
              else userMessage clk cur message,
              if truthy_number aid
              then (assistantMessage clk cur)\<lparr>msg_id := the aid, content := contents cs,
                     conversation_id := conv\<rparr>
              else (assistantMessage clk cur)\<lparr>content := contents cs\<rparr>],
           currentConversation := (if adopt then conv else cur),
           isLoading := False,
           streamingMessageRef := None,
           loadConversationsCalls :=
             (if adopt then loadConversationsCalls st + 1 else loadConversationsCalls st)\<rparr>)) \<and>
   sendStreamMessage parse_chunk sample_clock
     (Response True 200
        (Some [Value ''data: {"content":"4","finished":false}\<newline>'',
               Value ''data: {"finished":true,"conversation_id":"conv-9","user_message_id":101,"assistant_message_id":102}\<newline>'']))
     ''2+2?'' initial_state =
   \<lparr>messages =
      [\<lparr>msg_id = 101, role = USER, content = ''2+2?'', conversation_id = Some ''conv-9'',
         created_at = ''2023-11-14T22:13:20.000Z''\<rparr>,
       \<lparr>msg_id = 102, role = ASSISTANT, content = ''4'', conversation_id = Some ''conv-9'',
         created_at = ''2023-11-14T22:13:20.000Z''\<rparr>],
    currentConversation = Some ''conv-9'', isLoading = False,
    streamingMessageRef = None, toasts = [], loadConversationsCalls = 1\<rparr>\<close>
proof (intro conjI impI)
  assume "trim message \<noteq> [] \<and> list_ex finished (delivered jp reads) \<and>
    (\<forall>m \<in> set (messages st). msg_id m \<noteq> now_user clk \<and> msg_id m \<noteq> tempAssistantId clk) \<and>
    now_user clk \<noteq> tempAssistantId clk"
  then show "sendStreamMessage jp clk (Response True code (Some reads)) message st =
     (let cur = currentConversation st;
          cs = upto_finished (delivered jp reads);
          conv = latest truthy_string cur (map chunk_conversation_id cs);
          uid = latest truthy_number None (map user_message_id cs);
          aid = latest truthy_number None (map assistant_message_id cs);
          adopt = (\<not> truthy_string cur \<and> truthy_string conv)
      in st\<lparr>messages := messages st @
             [if truthy_number uid
              then (userMessage clk cur message)\<lparr>msg_id := the uid, conversation_id := conv\<rparr>
              else userMessage clk cur message,
              if truthy_number aid
              then (assistantMessage clk cur)\<lparr>msg_id := the aid, content := contents cs,
                     conversation_id := conv\<rparr>
              else (assistantMessage clk cur)\<lparr>content := contents cs\<rparr>],
           currentConversation := (if adopt then conv else cur),
           isLoading := False,
           streamingMessageRef := None,
           loadConversationsCalls :=
             (if adopt then loadConversationsCalls st + 1 else loadConversationsCalls st)\<rparr>)"
    using send_completed [of message jp reads st clk code] by blast
next
  show \<open>sendStreamMessage parse_chunk sample_clock
     (Response True 200
        (Some [Value ''data: {"content":"4","finished":false}\<newline>'',
               Value ''data: {"finished":true,"conversation_id":"conv-9","user_message_id":101,"assistant_message_id":102}\<newline>'']))
     ''2+2?'' initial_state =
   \<lparr>messages =
      [\<lparr>msg_id = 101, role = USER, content = ''2+2?'', conversation_id = Some ''conv-9'',
         created_at = ''2023-11-14T22:13:20.000Z''\<rparr>,
       \<lparr>msg_id = 102, role = ASSISTANT, content = ''4'', conversation_id = Some ''conv-9'',
         created_at = ''2023-11-14T22:13:20.000Z''\<rparr>],
    currentConversation = Some ''conv-9'', isLoading = False,
    streamingMessageRef = None, toasts = [], loadConversationsCalls = 1\<rparr>\<close>
    by (rule run_8_7)
qed

theorem C1_reconciliation_witness:
  \<open>trim ''2+2?'' \<noteq> [] \<and>
   list_ex finished (delivered parse_chunk
     [Value ''data: {"content":"4","finished":false}\<newline>'',
      Value ''data: {"finished":true,"conversation_id":"conv-9","user_message_id":101,"assistant_message_id":102}\<newline>'']) \<and>
   messages initial_state = [] \<and>
   now_user sample_clock \<noteq> tempAssistantId sample_clock \<and>
   messages (sendStreamMessage parse_chunk sample_clock
     (Response True 200
        (Some [Value ''data: {"content":"4","finished":false}\<newline>'',
               Value ''data: {"finished":true,"conversation_id":"conv-9","user_message_id":101,"assistant_message_id":102}\<newline>'']))
     ''2+2?'' initial_state) =
     [\<lparr>msg_id = 101, role = USER, content = ''2+2?'', conversation_id = Some ''conv-9'',
        created_at = ''2023-11-14T22:13:20.000Z''\<rparr>,
      \<lparr>msg_id = 102, role = ASSISTANT, content = ''4'', conversation_id = Some ''conv-9'',
        created_at = ''2023-11-14T22:13:20.000Z''\<rparr>] \<and>
   currentConversation (sendStreamMessage parse_chunk sample_clock
     (Response True 200
        (Some [Value ''data: {"content":"4","finished":false}\<newline>'',
               Value ''data: {"finished":true,"conversation_id":"conv-9","user_message_id":101,"assistant_message_id":102}\<newline>'']))
     ''2+2?'' initial_state) = Some ''conv-9''\<close>
proof -
  let ?reads = \<open>[Value ''data: {"content":"4","finished":false}\<newline>'',
      Value ''data: {"finished":true,"conversation_id":"conv-9","user_message_id":101,"assistant_message_id":102}\<newline>'']\<close>
  have del: \<open>delivered parse_chunk ?reads =
      [empty_chunk\<lparr>chunk_content := Some ''4''\<rparr>,
       empty_chunk\<lparr>finished := True, chunk_conversation_id := Some ''conv-9'',
         user_message_id := Some 101, assistant_message_id := Some 102\<rparr>]\<close>
    by code_simp
  have h1: "trim ''2+2?'' \<noteq> []"
    by (simp add: trim_examples)
  have h2: "list_ex finished (delivered parse_chunk ?reads)"
    by (simp add: del empty_chunk_def)
  have h3: "messages initial_state = []"
    by (simp add: initial_state_def)
  then have h3': "\<forall>m \<in> set (messages initial_state).
      msg_id m \<noteq> now_user sample_clock \<and> msg_id m \<noteq> tempAssistantId sample_clock"
    by simp
  note h4 = sample_clock_apart
  have final: "sendStreamMessage parse_chunk sample_clock (Response True 200 (Some ?reads))
      ''2+2?'' initial_state =
     (let cur = currentConversation initial_state;
          cs = upto_finished (delivered parse_chunk ?reads);
          conv = latest truthy_string cur (map chunk_conversation_id cs);
          uid = latest truthy_number None (map user_message_id cs);
          aid = latest truthy_number None (map assistant_message_id cs);
          adopt = (\<not> truthy_string cur \<and> truthy_string conv)
      in initial_state\<lparr>messages := messages initial_state @
             [if truthy_number uid
              then (userMessage sample_clock cur ''2+2?'')\<lparr>msg_id := the uid, conversation_id := conv\<rparr>
              else userMessage sample_clock cur ''2+2?'',
              if truthy_number aid
              then (assistantMessage sample_clock cur)\<lparr>msg_id := the aid, content := contents cs,
                     conversation_id := conv\<rparr>
              else (assistantMessage sample_clock cur)\<lparr>content := contents cs\<rparr>],
           currentConversation := (if adopt then conv else cur),
           isLoading := False,
           streamingMessageRef := None,
           loadConversationsCalls :=
             (if adopt then loadConversationsCalls initial_state + 1
              else loadConversationsCalls initial_state)\<rparr>)"
    using C1_reconciliation [where jp = parse_chunk and reads = ?reads and code = 200
        and message = "''2+2?''" and st = initial_state and clk = sample_clock, THEN conjunct1]
      h1 h2 h3' h4
    by blast
  have w1: "messages (sendStreamMessage parse_chunk sample_clock (Response True 200 (Some ?reads))
      ''2+2?'' initial_state) =
     [\<lparr>msg_id = 101, role = USER, content = ''2+2?'', conversation_id = Some ''conv-9'',
        created_at = ''2023-11-14T22:13:20.000Z''\<rparr>,
      \<lparr>msg_id = 102, role = ASSISTANT, content = ''4'', conversation_id = Some ''conv-9'',
        created_at = ''2023-11-14T22:13:20.000Z''\<rparr>]"
    unfolding final del
    by (simp add: Let_def initial_state_def sample_clock_def userMessage_def assistantMessage_def
        latest_def truthy_number_def truthy_string_def contents_def empty_chunk_def trim_examples)
  have w2: "currentConversation (sendStreamMessage parse_chunk sample_clock
      (Response True 200 (Some ?reads)) ''2+2?'' initial_state) = Some ''conv-9''"
    unfolding final del
    by (simp add: Let_def initial_state_def latest_def truthy_string_def empty_chunk_def)
  show ?thesis
    by (intro conjI) (fact h1, fact h2, fact h3, fact h4, fact w1, fact w2)
qed

end
